theory Spec2Isabelle
  imports Main
begin

section \<open>Data model (types.ts)\<close>

text \<open>
  The enum \<^verbatim>\<open>ImageFileStatus\<close> and the interface \<^verbatim>\<open>ImageFile\<close>.
  A browser \<^verbatim>\<open>File\<close> is kept as its name and media type; its content is read through
  the environment (\<open>readAsDataURL\<close> below). The field \<^verbatim>\<open>id\<close> is called \<open>image_id\<close>
  because \<open>id\<close> is the identity function of HOL, and \<^verbatim>\<open>file\<close> is \<open>image_file\<close> because
  \<open>file\<close> is a keyword. \<^verbatim>\<open>enhancedSrc: string | null\<close> and
  \<^verbatim>\<open>error?: string\<close> are options.
\<close>

datatype ImageFileStatus = IDLE | ENHANCING | SUCCESS | ERROR

record File =
  name :: string
  type :: string

record ImageFile =
  image_id :: string
  image_file :: File
  originalSrc :: string
  enhancedSrc :: "string option"
  status :: ImageFileStatus
  error :: "string option"

section \<open>Values of the JavaScript runtime\<close>

text \<open>
  Anything can be thrown in JavaScript: an \<^verbatim>\<open>Error\<close> object with its message, or a value
  that is no \<^verbatim>\<open>Error\<close> (the \<^verbatim>\<open>instanceof Error\<close> tests of the source tell them apart).
\<close>

datatype thrown = ErrorObj string | NonError

text \<open>Truthiness of a \<^verbatim>\<open>string | null | undefined\<close>: null, undefined and the empty string are falsy.\<close>

fun truthy :: "string option \<Rightarrow> bool" where
  "truthy None = False"
| "truthy (Some s) = (s \<noteq> [])"

text \<open>\<^verbatim>\<open>s.startsWith(p)\<close>.\<close>

definition startsWith :: "string \<Rightarrow> string \<Rightarrow> bool" where
  "startsWith p s = (take (length p) s = p)"

text \<open>
  \<^verbatim>\<open>s.split(c)\<close> for a separator of one character: the pieces between the separators,
  never an empty array (\<^verbatim>\<open>''.split('.')\<close> is \<^verbatim>\<open>['']\<close>).
\<close>

fun split_on :: "char \<Rightarrow> string \<Rightarrow> string list" where
  "split_on c [] = [[]]"
| "split_on c (x # xs) =
     (if x = c then [] # split_on c xs
      else (case split_on c xs of
              [] \<Rightarrow> [[x]]
            | piece # pieces \<Rightarrow> (x # piece) # pieces))"

text \<open>\<^verbatim>\<open>pieces.join(sep)\<close>.\<close>

fun join :: "string \<Rightarrow> string list \<Rightarrow> string" where
  "join sep [] = []"
| "join sep [p] = p"
| "join sep (p # q # ps) = p @ sep @ join sep (q # ps)"

text \<open>The decimal numeral a template literal prints for a non-negative integer.\<close>

definition digit :: "nat \<Rightarrow> char" where
  "digit d = ''0123456789'' ! d"

fun string_of_nat :: "nat \<Rightarrow> string" where
  "string_of_nat n =
     (if n < 10 then [digit n] else string_of_nat (n div 10) @ [digit (n mod 10)])"

declare string_of_nat.simps [simp del]

section \<open>The remote service's response (@google/genai)\<close>

text \<open>
  The response object as far as \<^verbatim>\<open>enhanceImage\<close> reads it:
  \<^verbatim>\<open>response.candidates?.[0]?.content?.parts\<close>, each part with an optional
  \<^verbatim>\<open>inlineData\<close> whose \<^verbatim>\<open>data\<close> is optional. The request's parts have the same shape.
\<close>

datatype inlineData = InlineData (data: "string option") (mimeType: "string option")

datatype part = Part (part_text: "string option") (inlineData: "inlineData option")

datatype content = Content (parts: "part list option")

datatype candidate = Candidate (content: "content option")

datatype response = Response (candidates: "candidate list option")

section \<open>The application state and its environment\<close>

type_synonym blob = string

datatype fetch_response = FetchResponse (body: "thrown + blob")

datatype href = DataUrl string | ObjectUrl blob

text \<open>
  Every effect the handlers have outside the three state hooks is recorded as an event,
  and so is every write to a hook, in the order the source performs them.
\<close>

datatype event =
    StatusSet string ImageFileStatus
  | ImagesAppended "ImageFile list"
  | ProcessingSet bool
  | ZippingSet bool
  | GenerateContent "part list"
  | ConsoleError string
  | LinkClick href string

record app_state =
  images :: "ImageFile list"
  isProcessing :: bool
  isZipping :: bool
  events :: "event list"

text \<open>
  What the handlers cannot decide themselves:
  \<^item> \<open>API_KEY\<close>: \<^verbatim>\<open>process.env.API_KEY\<close>;
  \<^item> \<open>generateContent k request\<close>: how the \<open>k\<close>-th remote call of the session ends
    (everything inside the \<^verbatim>\<open>try\<close> of \<^verbatim>\<open>enhanceImage\<close> up to the response);
  \<^item> \<open>uploads k\<close>: the file list a \<^verbatim>\<open>handleFileChange\<close> of the user finishes with while
    the \<open>k\<close>-th remote call is awaited (\<open>None\<close>: the user adds nothing meanwhile);
  \<^item> \<open>readAsDataURL\<close>: the outcome of the \<^verbatim>\<open>FileReader\<close> (\<^verbatim>\<open>onload\<close> or \<^verbatim>\<open>onerror\<close>);
  \<^item> \<open>date_now i\<close>: what \<^verbatim>\<open>Date.now()\<close> returns when entry \<open>i\<close> of a file list is pushed;
  \<^item> \<open>fetch\<close>: \<^verbatim>\<open>fetch(url)\<close>, whose response carries the outcome of \<^verbatim>\<open>response.blob()\<close>;
  \<^item> \<open>generateAsync\<close>: JSZip's packaging of the entries added so far.
\<close>

record env =
  API_KEY :: "string option"
  generateContent :: "nat \<Rightarrow> part list \<Rightarrow> thrown + response"
  uploads :: "nat \<Rightarrow> File list option"
  readAsDataURL :: "File \<Rightarrow> thrown + string"
  date_now :: "nat \<Rightarrow> nat"
  fetch :: "string \<Rightarrow> thrown + fetch_response"
  generateAsync :: "(string \<times> blob) list \<Rightarrow> thrown + blob"

definition emit :: "event \<Rightarrow> app_state \<Rightarrow> app_state" where
  "emit e st = st\<lparr>events := events st @ [e]\<rparr>"

text \<open>\<^verbatim>\<open>setIsProcessing(b)\<close> and \<^verbatim>\<open>setIsZipping(b)\<close>.\<close>

definition setIsProcessing :: "bool \<Rightarrow> app_state \<Rightarrow> app_state" where
  "setIsProcessing b st = emit (ProcessingSet b) (st\<lparr>isProcessing := b\<rparr>)"

definition setIsZipping :: "bool \<Rightarrow> app_state \<Rightarrow> app_state" where
  "setIsZipping b st = emit (ZippingSet b) (st\<lparr>isZipping := b\<rparr>)"

text \<open>
  The two shapes of \<^verbatim>\<open>setImages\<close> in App.tsx:
  \<^verbatim>\<open>setImages(prev => [...prev, ...newImageFiles])\<close> and
  \<^verbatim>\<open>setImages(prev => prev.map(img => img.id === id ? { ...img, status: s, <field> } : img))\<close>,
  where \<open>write\<close> writes the field that accompanies the status (none for ENHANCING).
\<close>

definition setImages_append :: "ImageFile list \<Rightarrow> app_state \<Rightarrow> app_state" where
  "setImages_append newImageFiles st =
     emit (ImagesAppended newImageFiles) (st\<lparr>images := images st @ newImageFiles\<rparr>)"

definition setImages_status ::
  "string \<Rightarrow> ImageFileStatus \<Rightarrow> (ImageFile \<Rightarrow> ImageFile) \<Rightarrow> app_state \<Rightarrow> app_state" where
  "setImages_status i s write st =
     emit (StatusSet i s)
       (st\<lparr>images := map (\<lambda>img. if image_id img = i then write (img\<lparr>status := s\<rparr>) else img)
                         (images st)\<rparr>)"

section \<open>Uploading (App.tsx, lines 9 to 45)\<close>

definition fileToDataURL :: "env \<Rightarrow> File \<Rightarrow> thrown + string" where
  "fileToDataURL env f = readAsDataURL env f"

text \<open>\<^verbatim>\<open>dataUrl.split(',')[1]\<close>, which is \<^verbatim>\<open>undefined\<close> when the URL has no comma.\<close>

definition fileToBase64 :: "string \<Rightarrow> string option" where
  "fileToBase64 dataUrl =
     (case split_on (CHR '','') dataUrl of
        _ # second # _ \<Rightarrow> Some second
      | _ \<Rightarrow> None)"

text \<open>
  The \<^verbatim>\<open>for\<close> loop of \<^verbatim>\<open>handleFileChange\<close>: \<open>i\<close> is the index of the entry at hand,
  \<open>newImageFiles\<close> the array built so far. A rejected \<^verbatim>\<open>fileToDataURL\<close> leaves the loop
  and the handler at the \<^verbatim>\<open>await\<close>.
\<close>

fun collect_images :: "env \<Rightarrow> File list \<Rightarrow> nat \<Rightarrow> ImageFile list \<Rightarrow> thrown + ImageFile list" where
  "collect_images env [] i newImageFiles = Inr newImageFiles"
| "collect_images env (f # fs) i newImageFiles =
     (if startsWith ''image/'' (type f) then
        (case fileToDataURL env f of
           Inl e \<Rightarrow> Inl e
         | Inr dataUrl \<Rightarrow>
             collect_images env fs (Suc i)
               (newImageFiles @
                 [\<lparr>image_id = name f @ ''-'' @ string_of_nat (date_now env i),
                   image_file = f,
                   originalSrc = dataUrl,
                   enhancedSrc = None,
                   status = IDLE,
                   error = None\<rparr>]))
      else collect_images env fs (Suc i) newImageFiles)"

text \<open>
  \<^verbatim>\<open>handleFileChange(files: FileList | null)\<close>. When a read is rejected the handler's
  promise is rejected before \<^verbatim>\<open>setImages\<close> is reached, and nobody catches it.
\<close>

definition handleFileChange :: "env \<Rightarrow> File list option \<Rightarrow> app_state \<Rightarrow> app_state" where
  "handleFileChange env files st =
     (case files of
        None \<Rightarrow> st
      | Some fs \<Rightarrow>
          (case collect_images env fs 0 [] of
             Inl e \<Rightarrow> st
           | Inr newImageFiles \<Rightarrow> setImages_append newImageFiles st))"

section \<open>The enhancement client (services/geminiService.ts)\<close>

definition fileToGenerativePart :: "string option \<Rightarrow> string \<Rightarrow> part" where
  "fileToGenerativePart base64 mime = Part None (Some (InlineData base64 (Some mime)))"

definition prompt :: string where
  "prompt = ''Enhance this image to be sharp, clear, and high-definition. Increase resolution and remove blurriness and compression artifacts. Make the colors more vibrant but keep them natural.''"

text \<open>\<^verbatim>\<open>response.candidates?.[0]?.content?.parts ?? []\<close>.\<close>

definition response_parts :: "response \<Rightarrow> part list" where
  "response_parts r =
     (case candidates r of
        None \<Rightarrow> []
      | Some [] \<Rightarrow> []
      | Some (c # _) \<Rightarrow>
          (case content c of
             None \<Rightarrow> []
           | Some ct \<Rightarrow> (case parts ct of None \<Rightarrow> [] | Some ps \<Rightarrow> ps)))"

text \<open>\<^verbatim>\<open>part.inlineData?.data\<close> when it is truthy: the image payload of a part.\<close>

definition image_payload :: "part \<Rightarrow> string option" where
  "image_payload p =
     (case inlineData p of
        None \<Rightarrow> None
      | Some d \<Rightarrow> (if truthy (data d) then data d else None))"

text \<open>The \<^verbatim>\<open>for\<close> loop over the parts, which returns at the first part with a payload.\<close>

fun first_image :: "part list \<Rightarrow> string option" where
  "first_image [] = None"
| "first_image (p # ps) =
     (case image_payload p of
        Some d \<Rightarrow> Some d
      | None \<Rightarrow> first_image ps)"

text \<open>The number of remote calls made so far.\<close>

fun is_request :: "event \<Rightarrow> bool" where
  "is_request (GenerateContent _) = True"
| "is_request _ = False"

definition remote_calls :: "app_state \<Rightarrow> nat" where
  "remote_calls st = length (filter is_request (events st))"

text \<open>
  \<^verbatim>\<open>enhanceImage(base64Data, mimeType)\<close>: the value it resolves to (\<open>Inr\<close>) or rejects
  with (\<open>Inl\<close>). The credential is tested before the \<^verbatim>\<open>try\<close>. At
  \<^verbatim>\<open>await ai.models.generateContent(...)\<close> the request is on its way and the handler is
  suspended: an upload of the user that completes meanwhile (\<open>uploads env k\<close>) runs its
  \<^verbatim>\<open>handleFileChange\<close> here. The \<^verbatim>\<open>catch\<close> rewraps whatever the \<^verbatim>\<open>try\<close> threw,
  the missing payload included.
\<close>

definition enhanceImage ::
  "env \<Rightarrow> string option \<Rightarrow> string \<Rightarrow> app_state \<Rightarrow> (thrown + string) \<times> app_state" where
  "enhanceImage env base64Data mime st =
     (if \<not> truthy (API_KEY env) then
        (Inl (ErrorObj ''API key not found in environment variables.''), st)
      else
        let imagePart = fileToGenerativePart base64Data mime;
            request = [imagePart, Part (Some prompt) None];
            k = remote_calls st;
            st1 = handleFileChange env (uploads env k) (emit (GenerateContent request) st);
            attempt =
              (case generateContent env k request of
                 Inl e \<Rightarrow> Inl e
               | Inr response \<Rightarrow>
                   (case first_image (response_parts response) of
                      Some d \<Rightarrow> Inr d
                    | None \<Rightarrow> Inl (ErrorObj ''No enhanced image found in the API response.'')))
        in (case attempt of
              Inr d \<Rightarrow> (Inr d, st1)
            | Inl err \<Rightarrow>
                (Inl (case err of
                        ErrorObj message \<Rightarrow> ErrorObj (''Failed to enhance image: '' @ message)
                      | NonError \<Rightarrow> ErrorObj ''An unknown error occurred during image enhancement.''),
                 emit (ConsoleError ''Error enhancing image:'') st1)))"

section \<open>Enhancing (App.tsx, lines 47 to 72)\<close>

text \<open>
  \<^verbatim>\<open>enhanceSingleImage(id)\<close>. The handler reads \<^verbatim>\<open>images\<close> from the render that created
  it (\<open>rendered\<close>); its \<^verbatim>\<open>setImages\<close> calls update the store as it is when they run.
\<close>

definition enhanceSingleImage :: "env \<Rightarrow> ImageFile list \<Rightarrow> string \<Rightarrow> app_state \<Rightarrow> app_state" where
  "enhanceSingleImage env rendered i st =
     (case find (\<lambda>img. image_id img = i) rendered of
        None \<Rightarrow> st
      | Some imageToEnhance \<Rightarrow>
          let st1 = setImages_status i ENHANCING (\<lambda>img. img) st;
              base64 = fileToBase64 (originalSrc imageToEnhance);
              (result, st2) = enhanceImage env base64 (type (image_file imageToEnhance)) st1
          in (case result of
                Inr enhancedBase64 \<Rightarrow>
                  setImages_status i SUCCESS
                    (\<lambda>img. img\<lparr>enhancedSrc :=
                       Some (''data:'' @ type (image_file imageToEnhance) @ '';base64,'' @ enhancedBase64)\<rparr>)
                    st2
              | Inl err \<Rightarrow>
                  let st3 = emit (ConsoleError (''Enhancement failed for '' @ name (image_file imageToEnhance))) st2;
                      errorMessage =
                        (case err of
                           ErrorObj message \<Rightarrow> message
                         | NonError \<Rightarrow> ''An unknown error occurred.'')
                  in setImages_status i ERROR (\<lambda>img. img\<lparr>error := Some errorMessage\<rparr>) st3))"

text \<open>The \<^verbatim>\<open>for\<close> loop of \<^verbatim>\<open>enhanceAllImages\<close> over \<^verbatim>\<open>idleImages\<close>.\<close>

fun enhance_each :: "env \<Rightarrow> ImageFile list \<Rightarrow> ImageFile list \<Rightarrow> app_state \<Rightarrow> app_state" where
  "enhance_each env rendered [] st = st"
| "enhance_each env rendered (img # rest) st =
     enhance_each env rendered rest (enhanceSingleImage env rendered (image_id img) st)"

definition enhanceAllImages :: "env \<Rightarrow> ImageFile list \<Rightarrow> app_state \<Rightarrow> app_state" where
  "enhanceAllImages env rendered st =
     (let st1 = setIsProcessing True st;
          idleImages = filter (\<lambda>img. status img = IDLE) rendered;
          st2 = enhance_each env rendered idleImages st1
      in setIsProcessing False st2)"

section \<open>Downloading (App.tsx, lines 74 to 110, and components/ImageCard.tsx)\<close>

text \<open>
  JSZip is a library outside the repository. \<^verbatim>\<open>zip.file(name, blob)\<close> adds an entry or
  replaces the entry of that name; the archive under construction is the list of its
  entries.
\<close>

fun zip_file :: "string \<Rightarrow> blob \<Rightarrow> (string \<times> blob) list \<Rightarrow> (string \<times> blob) list" where
  "zip_file n b [] = [(n, b)]"
| "zip_file n b ((k, v) # entries) =
     (if k = n then (n, b) # entries else (k, v) # zip_file n b entries)"

text \<open>
  The \<^verbatim>\<open>for\<close> loop of \<^verbatim>\<open>handleDownloadAll\<close>; a failed \<^verbatim>\<open>fetch\<close> or \<^verbatim>\<open>blob()\<close> leaves it
  for the \<^verbatim>\<open>catch\<close>.
\<close>

fun zip_images :: "env \<Rightarrow> ImageFile list \<Rightarrow> (string \<times> blob) list \<Rightarrow> thrown + (string \<times> blob) list" where
  "zip_images env [] entries = Inr entries"
| "zip_images env (img # rest) entries =
     (case enhancedSrc img of
        None \<Rightarrow> zip_images env rest entries
      | Some src \<Rightarrow>
          if src = [] then zip_images env rest entries
          else
            (case fetch env src of
               Inl e \<Rightarrow> Inl e
             | Inr response \<Rightarrow>
                 (case body response of
                    Inl e \<Rightarrow> Inl e
                  | Inr blob \<Rightarrow>
                      let originalName = join ''.'' (butlast (split_on (CHR ''.'') (name (image_file img))));
                          extension0 = (case split_on (CHR ''/'') (type (image_file img)) of
                                          _ # second # _ \<Rightarrow> (if second = [] then ''png'' else second)
                                        | _ \<Rightarrow> ''png'');
                          extension = (if extension0 = ''jpeg'' then ''jpg'' else extension0)
                      in zip_images env rest (zip_file (originalName @ ''-enhanced.'' @ extension) blob entries))))"

text \<open>\<^verbatim>\<open>handleDownloadAll\<close>, with \<^verbatim>\<open>try\<close>, \<^verbatim>\<open>catch\<close> and \<^verbatim>\<open>finally\<close>.\<close>

definition handleDownloadAll :: "env \<Rightarrow> ImageFile list \<Rightarrow> app_state \<Rightarrow> app_state" where
  "handleDownloadAll env rendered st =
     (let successfulImages = filter (\<lambda>img. status img = SUCCESS \<and> truthy (enhancedSrc img)) rendered
      in if length successfulImages = 0 then st
         else
           let st1 = setIsZipping True st;
               st2 =
                 (case zip_images env successfulImages [] of
                    Inl e \<Rightarrow> emit (ConsoleError ''Failed to create zip file'') st1
                  | Inr entries \<Rightarrow>
                      (case generateAsync env entries of
                         Inl e \<Rightarrow> emit (ConsoleError ''Failed to create zip file'') st1
                       | Inr archive \<Rightarrow> emit (LinkClick (ObjectUrl archive) ''enhanced-images.zip'') st1))
           in setIsZipping False st2)"

text \<open>\<^verbatim>\<open>handleDownload\<close> of the card that shows \<open>img\<close>.\<close>

definition handleDownload :: "ImageFile \<Rightarrow> app_state \<Rightarrow> app_state" where
  "handleDownload img st =
     (case enhancedSrc img of
        None \<Rightarrow> st
      | Some src \<Rightarrow>
          if src = [] then st
          else
            let originalName = join ''.'' (butlast (split_on (CHR ''.'') (name (image_file img))));
                extension0 = (case split_on (CHR ''/'') (type (image_file img)) of
                                _ # second # _ \<Rightarrow> (if second = [] then ''png'' else second)
                              | _ \<Rightarrow> ''png'');
                extension = (if extension0 = ''jpeg'' then ''jpg'' else extension0)
            in emit (LinkClick (DataUrl src) (originalName @ ''-enhanced.'' @ extension)) st)"

section \<open>Predicates of the statements\<close>

text \<open>A record as \<^verbatim>\<open>handleFileChange\<close> creates it: waiting, with no enhanced source and no error.\<close>

definition unenhanced :: "ImageFile \<Rightarrow> bool" where
  "unenhanced img = (status img = IDLE \<and> enhancedSrc img = None \<and> error img = None)"

text \<open>A file that passes the test of \<^verbatim>\<open>handleFileChange\<close>.\<close>

definition is_image_file :: "File \<Rightarrow> bool" where
  "is_image_file f = startsWith ''image/'' (type f)"

text \<open>The events that write a status, and the two final writes of \<^verbatim>\<open>enhanceSingleImage\<close>.\<close>

fun is_status :: "event \<Rightarrow> bool" where
  "is_status (StatusSet _ _) = True"
| "is_status _ = False"

definition succeed :: "string \<Rightarrow> ImageFile \<Rightarrow> ImageFile" where
  "succeed src img = img\<lparr>status := SUCCESS, enhancedSrc := Some src\<rparr>"

definition fail_with :: "string \<Rightarrow> ImageFile \<Rightarrow> ImageFile" where
  "fail_with message img = img\<lparr>status := ERROR, error := Some message\<rparr>"

text \<open>The request \<^verbatim>\<open>enhanceSingleImage\<close> sends for a record.\<close>

definition request_for :: "ImageFile \<Rightarrow> event" where
  "request_for img =
     GenerateContent [fileToGenerativePart (fileToBase64 (originalSrc img)) (type (image_file img)),
                      Part (Some prompt) None]"

text \<open>
  What the enhancement of one record \<open>x\<close> leaves in the log, status writes and remote
  calls only: the write of Enhancing, the request (when there is a credential), the write
  of the final status \<open>t\<close>.
\<close>

definition enhancement_log :: "bool \<Rightarrow> ImageFile \<Rightarrow> ImageFileStatus \<Rightarrow> event list" where
  "enhancement_log credential x t =
     StatusSet (image_id x) ENHANCING # (if credential then [request_for x] else [])
       @ [StatusSet (image_id x) t]"

text \<open>
  The invariant of the data model, as a whole and in its forward half: the enhanced source
  is present if and only if (respectively: whenever) the status is Success, the error if
  and only if (whenever) the status is Error.
\<close>

definition fields_match :: "ImageFile \<Rightarrow> bool" where
  "fields_match img =
     ((enhancedSrc img \<noteq> None) = (status img = SUCCESS) \<and> (error img \<noteq> None) = (status img = ERROR))"

definition fields_present :: "ImageFile \<Rightarrow> bool" where
  "fields_present img =
     ((status img = SUCCESS \<longrightarrow> enhancedSrc img \<noteq> None) \<and> (status img = ERROR \<longrightarrow> error img \<noteq> None))"

section \<open>Concrete inputs\<close>

text \<open>Files, records, a state and environments on which the theorems below are exercised.\<close>

definition file_a :: File where
  "file_a = \<lparr>name = ''a.png'', type = ''image/png''\<rparr>"

definition file_b :: File where
  "file_b = \<lparr>name = ''b.jpg'', type = ''image/jpeg''\<rparr>"

definition file_noext :: File where
  "file_noext = \<lparr>name = ''photo'', type = ''image/png''\<rparr>"

definition success_of :: "File \<Rightarrow> string \<Rightarrow> ImageFile" where
  "success_of f payload =
     \<lparr>image_id = name f @ ''-7'', image_file = f,
      originalSrc = ''data:'' @ type f @ '';base64,AAAA'',
      enhancedSrc = Some (''data:'' @ type f @ '';base64,'' @ payload),
      status = SUCCESS, error = None\<rparr>"

definition st_empty :: app_state where
  "st_empty = \<lparr>images = [], isProcessing = False, isZipping = False, events = []\<rparr>"

text \<open>
  An environment in which everything works: the service answers with a text part and an
  image part, files are readable, the clock stands at 7, a data URL fetches to itself, and
  the packaged archive lists the names of its entries.
\<close>

definition env_ok :: env where
  "env_ok = \<lparr>API_KEY = Some ''key'',
     generateContent = (\<lambda>k request. Inr (Response (Some [Candidate (Some (Content (Some
        [Part (Some ''done'') None, Part None (Some (InlineData (Some ''BBBB'') (Some ''image/png'')))])))]))),
     uploads = (\<lambda>k. None),
     readAsDataURL = (\<lambda>f. Inr (''data:'' @ type f @ '';base64,AAAA'')),
     date_now = (\<lambda>i. 7),
     fetch = (\<lambda>url. Inr (FetchResponse (Inr url))),
     generateAsync = (\<lambda>entries. Inr (concat (map (\<lambda>(n, b). n @ '';'') entries)))\<rparr>"

text \<open>The record \<^verbatim>\<open>handleFileChange\<close> creates for a file in \<open>env_ok\<close>, and a store that holds some.\<close>

definition idle_of :: "File \<Rightarrow> ImageFile" where
  "idle_of f =
     \<lparr>image_id = name f @ ''-7'', image_file = f,
      originalSrc = ''data:'' @ type f @ '';base64,AAAA'',
      enhancedSrc = None, status = IDLE, error = None\<rparr>"

definition store_of :: "ImageFile list \<Rightarrow> app_state" where
  "store_of imgs = \<lparr>images = imgs, isProcessing = False, isZipping = False, events = []\<rparr>"

text \<open>
  Environments in which something fails: no credential; the service is down from the
  second call on; the file \<open>b.jpg\<close> cannot be read; the enhanced source of \<open>b.jpg\<close> cannot
  be fetched; the archive cannot be packaged.
\<close>

definition env_nokey :: env where
  "env_nokey = env_ok\<lparr>API_KEY := None\<rparr>"

definition env_flaky :: env where
  "env_flaky = env_ok\<lparr>generateContent :=
     (\<lambda>k request. if k = 0 then generateContent env_ok k request else Inl (ErrorObj ''503''))\<rparr>"

definition env_unreadable :: env where
  "env_unreadable = env_ok\<lparr>readAsDataURL :=
     (\<lambda>f. if name f = ''b.jpg'' then Inl NonError else readAsDataURL env_ok f)\<rparr>"

definition env_fetch_fails :: env where
  "env_fetch_fails = env_ok\<lparr>fetch :=
     (\<lambda>url. if url = ''data:image/jpeg;base64,BBBB'' then Inl (ErrorObj ''Failed to fetch'') else fetch env_ok url)\<rparr>"

definition env_zip_fails :: env where
  "env_zip_fails = env_ok\<lparr>generateAsync := (\<lambda>entries. Inl (ErrorObj ''out of memory''))\<rparr>"

text \<open>A third image, and an environment in which the user uploads it during the first remote call.\<close>

definition file_c :: File where
  "file_c = \<lparr>name = ''c.png'', type = ''image/png''\<rparr>"

definition env_upload :: env where
  "env_upload = env_ok\<lparr>uploads := (\<lambda>k. if k = 0 then Some [file_c] else None)\<rparr>"

text \<open>
  A session: \<open>a.png\<close> is uploaded and enhanced, and then enhanced once more, when the
  service is down.
\<close>

definition uploaded_a :: app_state where
  "uploaded_a = handleFileChange env_flaky (Some [file_a]) st_empty"

definition enhanced_a :: app_state where
  "enhanced_a = enhanceSingleImage env_flaky (images uploaded_a) ''a.png-7'' uploaded_a"

definition reenhanced_a :: app_state where
  "reenhanced_a = enhanceSingleImage env_flaky (images enhanced_a) ''a.png-7'' enhanced_a"

text \<open>
  Two files of the same name in one upload: \<^verbatim>\<open>handleFileChange\<close> gives both records the
  same id when the clock does not advance between them.
\<close>

definition file_a_jpeg :: File where
  "file_a_jpeg = \<lparr>name = ''a.png'', type = ''image/jpeg''\<rparr>"

definition twins_of :: "env \<Rightarrow> app_state" where
  "twins_of env = handleFileChange env (Some [file_a, file_a_jpeg]) st_empty"

section \<open>Strings: splitting and joining\<close>

lemma split_on_nonempty: "split_on c s \<noteq> []"
  by (induction s) (auto split: list.splits)

lemma split_on_no_sep: "c \<notin> set s \<Longrightarrow> split_on c s = [s]"
  by (induction s) auto

lemma split_on_sep: "split_on c (a @ c # b) = split_on c a @ split_on c b"
proof (induction a)
  case Nil
  show ?case by simp
next
  case (Cons x a)
  obtain p ps where "split_on c a = p # ps"
    using split_on_nonempty [of c a] by (cases "split_on c a") auto
  with Cons show ?case by simp
qed

lemma join_split_on: "join [c] (split_on c s) = s"
proof (induction s)
  case Nil
  show ?case by simp
next
  case (Cons x s)
  obtain p ps where ps: "split_on c s = p # ps"
    using split_on_nonempty [of c s] by (cases "split_on c s") auto
  show ?case
  proof (cases "x = c")
    case True
    with Cons ps show ?thesis by simp
  next
    case False
    with Cons ps show ?thesis by (cases ps) auto
  qed
qed

text \<open>The base name is what stands before the last dot, and nothing when there is no dot.\<close>

lemma base_name_dotted:
  assumes "CHR ''.'' \<notin> set suffix"
  shows "join ''.'' (butlast (split_on (CHR ''.'') (base @ ''.'' @ suffix))) = base"
proof -
  have "split_on (CHR ''.'') (base @ ''.'' @ suffix) = split_on (CHR ''.'') base @ [suffix]"
    using assms by (simp add: split_on_sep split_on_no_sep)
  then show ?thesis by (simp add: join_split_on)
qed

lemma base_name_dotless:
  assumes "CHR ''.'' \<notin> set n"
  shows "join ''.'' (butlast (split_on (CHR ''.'') n)) = []"
  using assms by (simp add: split_on_no_sep)

lemma subtype_of:
  assumes "CHR ''/'' \<notin> set major" "CHR ''/'' \<notin> set sub"
  shows "split_on (CHR ''/'') (major @ ''/'' @ sub) = [major, sub]"
  using assms by (simp add: split_on_sep split_on_no_sep)

section \<open>The concrete environments\<close>

lemma env_ok_fields:
  "API_KEY env_ok = Some ''key''"
  "generateContent env_ok k request = Inr (Response (Some [Candidate (Some (Content (Some
        [Part (Some ''done'') None, Part None (Some (InlineData (Some ''BBBB'') (Some ''image/png'')))])))]))"
  "uploads env_ok k = None"
  "readAsDataURL env_ok f = Inr (''data:'' @ type f @ '';base64,AAAA'')"
  "date_now env_ok i = 7"
  by (simp_all add: env_ok_def)

lemma env_flaky_fields:
  "API_KEY env_flaky = Some ''key''"
  "generateContent env_flaky k request = (if k = 0 then generateContent env_ok k request else Inl (ErrorObj ''503''))"
  "uploads env_flaky k = None"
  "readAsDataURL env_flaky f = Inr (''data:'' @ type f @ '';base64,AAAA'')"
  "date_now env_flaky i = 7"
  by (simp_all add: env_flaky_def env_ok_def)


section \<open>Download names\<close>

text \<open>
  Claim C6. For a Success record with its enhanced source, whose media type is
  \<open>major/sub\<close> with a non-empty subtype and whose base name is \<open>base\<close> (the file name up
  to its last dot; empty when the name has no dot), the single download is named
  \<open>base-enhanced.ext\<close> and so is the entry the archive loop adds for it, where \<open>ext\<close> is the
  subtype, \<open>jpg\<close> for \<open>jpeg\<close>. (When the subtype is empty the source falls back to \<open>png\<close>.)
\<close>

theorem download_names:
  assumes "status img = SUCCESS" and "enhancedSrc img = Some src" and "src \<noteq> []"
    and "type (image_file img) = major @ ''/'' @ sub"
    and "CHR ''/'' \<notin> set major" and "CHR ''/'' \<notin> set sub" and "sub \<noteq> []"
    and "name (image_file img) = base @ ''.'' @ suffix \<and> CHR ''.'' \<notin> set suffix
         \<or> CHR ''.'' \<notin> set (name (image_file img)) \<and> base = []"
    and "ext = (if sub = ''jpeg'' then ''jpg'' else sub)"
  shows "handleDownload img st = emit (LinkClick (DataUrl src) (base @ ''-enhanced.'' @ ext)) st
       \<and> (fetch env src = Inr (FetchResponse (Inr b)) \<longrightarrow>
            zip_images env (img # rest) entries
              = zip_images env rest (zip_file (base @ ''-enhanced.'' @ ext) b entries))"
proof -
  have base: "join ''.'' (butlast (split_on (CHR ''.'') (name (image_file img)))) = base"
    using assms(8) base_name_dotted [of suffix base] base_name_dotless by auto
  have sub: "split_on (CHR ''/'') (type (image_file img)) = [major, sub]"
    using assms(4-6) subtype_of by simp
  show ?thesis
    using assms(2,3,7,9) by (simp add: handleDownload_def base sub)
qed

text \<open>
  The records \<open>a.png\<close> (image/png) and \<open>b.jpg\<close> (image/jpeg): the download of the second is
  \<open>b-enhanced.jpg\<close>, and the archive over both holds exactly \<open>a-enhanced.png\<close> and
  \<open>b-enhanced.jpg\<close>.
\<close>

theorem download_names_witness:
  "handleDownload (success_of file_b ''BBBB'') st_empty
     = emit (LinkClick (DataUrl ''data:image/jpeg;base64,BBBB'') ''b-enhanced.jpg'') st_empty
   \<and> zip_images env_ok [success_of file_a ''CCCC'', success_of file_b ''BBBB''] []
     = Inr [(''a-enhanced.png'', ''data:image/png;base64,CCCC''),
            (''b-enhanced.jpg'', ''data:image/jpeg;base64,BBBB'')]
   \<and> events (handleDownloadAll env_ok [success_of file_a ''CCCC'', success_of file_b ''BBBB''] st_empty)
     = [ZippingSet True, LinkClick (ObjectUrl ''a-enhanced.png;b-enhanced.jpg;'') ''enhanced-images.zip'',
        ZippingSet False]"
proof -
  let ?a = "success_of file_a ''CCCC''" and ?b = "success_of file_b ''BBBB''"
  have b: "handleDownload ?b st_empty
             = emit (LinkClick (DataUrl ''data:image/jpeg;base64,BBBB'') (''b'' @ ''-enhanced.'' @ ''jpg'')) st_empty
         \<and> (fetch env_ok ''data:image/jpeg;base64,BBBB'' = Inr (FetchResponse (Inr ''data:image/jpeg;base64,BBBB'')) \<longrightarrow>
            zip_images env_ok [?b] [(''a-enhanced.png'', ''data:image/png;base64,CCCC'')]
              = zip_images env_ok [] (zip_file (''b'' @ ''-enhanced.'' @ ''jpg'') ''data:image/jpeg;base64,BBBB''
                                        [(''a-enhanced.png'', ''data:image/png;base64,CCCC'')]))"
    by (rule download_names [where major = "''image''" and sub = "''jpeg''" and suffix = "''jpg''"])
       (simp_all add: success_of_def file_b_def)
  have a: "handleDownload ?a st_empty
             = emit (LinkClick (DataUrl ''data:image/png;base64,CCCC'') (''a'' @ ''-enhanced.'' @ ''png'')) st_empty
         \<and> (fetch env_ok ''data:image/png;base64,CCCC'' = Inr (FetchResponse (Inr ''data:image/png;base64,CCCC'')) \<longrightarrow>
            zip_images env_ok [?a, ?b] []
              = zip_images env_ok [?b] (zip_file (''a'' @ ''-enhanced.'' @ ''png'') ''data:image/png;base64,CCCC'' []))"
    by (rule download_names [where major = "''image''" and sub = "''png''" and suffix = "''png''"])
       (simp_all add: success_of_def file_a_def)
  have z: "zip_images env_ok [?a, ?b] []
     = Inr [(''a-enhanced.png'', ''data:image/png;base64,CCCC''),
            (''b-enhanced.jpg'', ''data:image/jpeg;base64,BBBB'')]"
    using a b by (simp add: env_ok_def)
  have s: "filter (\<lambda>img. status img = SUCCESS \<and> truthy (enhancedSrc img)) [?a, ?b] = [?a, ?b]"
    by (simp add: success_of_def)
  have "events (handleDownloadAll env_ok [?a, ?b] st_empty)
     = [ZippingSet True, LinkClick (ObjectUrl ''a-enhanced.png;b-enhanced.jpg;'') ''enhanced-images.zip'',
        ZippingSet False]"
    unfolding handleDownloadAll_def Let_def s z
    by (simp add: env_ok_def st_empty_def setIsZipping_def emit_def)
  with b z show ?thesis by simp
qed

text \<open>
  Claim C10. Both download paths derive the same name \<open>n\<close> for a record: the name of the
  single download is the name of its archive entry. Its base is what stands before the
  last dot of the file name, so a file name without a dot gives the empty base and the
  name \<open>-enhanced.ext\<close>.
\<close>

theorem base_name_shared:
  assumes "status img = SUCCESS" and "enhancedSrc img = Some src" and "src \<noteq> []"
  shows "\<exists>n ext.
           handleDownload img st = emit (LinkClick (DataUrl src) n) st
         \<and> (\<forall>env b rest entries. fetch env src = Inr (FetchResponse (Inr b)) \<longrightarrow>
               zip_images env (img # rest) entries = zip_images env rest (zip_file n b entries))
         \<and> (CHR ''.'' \<notin> set (name (image_file img)) \<longrightarrow> n = ''-enhanced.'' @ ext)
         \<and> (\<forall>base suffix. name (image_file img) = base @ ''.'' @ suffix \<and> CHR ''.'' \<notin> set suffix \<longrightarrow>
               n = base @ ''-enhanced.'' @ ext)"
proof -
  define original where
    "original = join ''.'' (butlast (split_on (CHR ''.'') (name (image_file img))))"
  define extension0 where
    "extension0 = (case split_on (CHR ''/'') (type (image_file img)) of
                     _ # second # _ \<Rightarrow> (if second = [] then ''png'' else second)
                   | _ \<Rightarrow> ''png'')"
  define ext where "ext = (if extension0 = ''jpeg'' then ''jpg'' else extension0)"
  have 1: "handleDownload img st = emit (LinkClick (DataUrl src) (original @ ''-enhanced.'' @ ext)) st"
    using assms(2,3) by (simp add: handleDownload_def original_def extension0_def ext_def)
  have 2: "fetch env src = Inr (FetchResponse (Inr b)) \<longrightarrow>
             zip_images env (img # rest) entries
               = zip_images env rest (zip_file (original @ ''-enhanced.'' @ ext) b entries)"
    for env b rest entries
    using assms(2,3) by (simp add: original_def extension0_def ext_def)
  have 3: "CHR ''.'' \<notin> set (name (image_file img)) \<longrightarrow> original = []"
    by (simp add: original_def base_name_dotless)
  have 4: "name (image_file img) = base @ ''.'' @ suffix \<and> CHR ''.'' \<notin> set suffix \<longrightarrow> original = base"
    for base suffix
    using base_name_dotted [of suffix base] by (auto simp: original_def)
  show ?thesis
    using 1 2 3 4 by (intro exI [of _ "original @ ''-enhanced.'' @ ext"] exI [of _ ext]) auto
qed

text \<open>The file \<open>photo\<close> of type image/png is downloaded, and archived, as \<open>-enhanced.png\<close>.\<close>

theorem base_name_shared_witness:
  "handleDownload (success_of file_noext ''BBBB'') st_empty
     = emit (LinkClick (DataUrl ''data:image/png;base64,BBBB'') ''-enhanced.png'') st_empty
   \<and> zip_images env_ok [success_of file_noext ''BBBB''] []
     = Inr [(''-enhanced.png'', ''data:image/png;base64,BBBB'')]"
  using base_name_shared [of "success_of file_noext ''BBBB''" "''data:image/png;base64,BBBB''" st_empty]
  by (simp add: success_of_def file_noext_def handleDownload_def env_ok_def)

section \<open>The enhancement client\<close>

lemma first_image_Some:
  "first_image ps = Some d \<Longrightarrow>
     \<exists>before p after. ps = before @ p # after \<and> (\<forall>q\<in>set before. image_payload q = None)
        \<and> image_payload p = Some d"
proof (induction ps)
  case Nil
  then show ?case by simp
next
  case (Cons a ps)
  show ?case
  proof (cases "image_payload a")
    case None
    with Cons obtain before p after where
      "ps = before @ p # after" "\<forall>q\<in>set before. image_payload q = None" "image_payload p = Some d"
      by auto
    with None have "a # ps = (a # before) @ p # after \<and> (\<forall>q\<in>set (a # before). image_payload q = None)
        \<and> image_payload p = Some d" by simp
    then show ?thesis by blast
  next
    case (Some e)
    with Cons.prems have "a # ps = [] @ a # ps \<and> (\<forall>q\<in>set []. image_payload q = None)
        \<and> image_payload a = Some d" by simp
    then show ?thesis by blast
  qed
qed

lemma first_image_None: "first_image ps = None \<Longrightarrow> \<forall>q\<in>set ps. image_payload q = None"
  by (induction ps) (auto split: option.splits)

lemma image_payload_Some_iff:
  "image_payload p = Some d \<longleftrightarrow> (\<exists>m. inlineData p = Some (InlineData (Some d) m) \<and> d \<noteq> [])"
proof (cases "inlineData p")
  case None
  then show ?thesis by (simp add: image_payload_def)
next
  case (Some x)
  then show ?thesis by (cases x; cases "data x") (auto simp: image_payload_def)
qed

lemma image_payload_None_iff:
  "image_payload p = None \<longleftrightarrow> \<not> (\<exists>d m. inlineData p = Some (InlineData (Some d) m) \<and> d \<noteq> [])"
proof (cases "inlineData p")
  case None
  then show ?thesis by (simp add: image_payload_def)
next
  case (Some x)
  then show ?thesis by (cases x; cases "data x") (auto simp: image_payload_def)
qed

lemma response_parts_first_candidate:
  "response_parts (Response (Some (Candidate (Some (Content (Some ps))) # others))) = ps"
  by (simp add: response_parts_def)

lemma response_parts_nonempty:
  assumes "response_parts r \<noteq> []"
  shows "\<exists>others. r = Response (Some (Candidate (Some (Content (Some (response_parts r)))) # others))"
proof (cases r)
  case (Response cs)
  show ?thesis
  proof (cases cs)
    case None
    with Response assms show ?thesis by (simp add: response_parts_def)
  next
    case (Some l)
    show ?thesis
    proof (cases l)
      case Nil
      with Response Some assms show ?thesis by (simp add: response_parts_def)
    next
      case (Cons c others)
      show ?thesis
      proof (cases c)
        case (Candidate ct)
        show ?thesis
        proof (cases ct)
          case None
          with Response Some Cons Candidate assms show ?thesis by (simp add: response_parts_def)
        next
          case inner: (Some body)
          show ?thesis
          proof (cases body)
            case (Content ps)
            show ?thesis
            proof (cases ps)
              case None
              with Response Some Cons Candidate inner Content assms show ?thesis
                by (simp add: response_parts_def)
            next
              case found: (Some parts)
              with Response Some Cons Candidate inner Content show ?thesis
                by (simp add: response_parts_def)
            qed
          qed
        qed
      qed
    qed
  qed
qed

text \<open>
  Claim C4. A call of the client ends in exactly one of two ways. Either it resolves to
  a string \<open>d\<close>: then the credential is configured, the remote call returned a response
  whose first candidate has the parts \<open>before @ p # after\<close>, \<open>d\<close> is the non-empty
  \<^verbatim>\<open>inlineData.data\<close> of \<open>p\<close>, and no part before \<open>p\<close> has non-empty inline data. Or it
  rejects with an \<^verbatim>\<open>Error\<close> object whose message is not empty: the credential is
  missing, or the remote call threw (an \<^verbatim>\<open>Error\<close> or something else), or the response
  has no part with non-empty inline data in its first candidate; the message names the
  cause.
\<close>

theorem enhanceImage_outcome:
  fixes env base64Data mime st
  defines "request \<equiv> [fileToGenerativePart base64Data mime, Part (Some prompt) None]"
  defines "reply \<equiv> generateContent env (remote_calls st) request"
  defines "result \<equiv> fst (enhanceImage env base64Data mime st)"
  shows "(\<exists>d. result = Inr d \<and> d \<noteq> [] \<and> truthy (API_KEY env)
            \<and> (\<exists>others before p after m.
                  reply = Inr (Response (Some (Candidate (Some (Content (Some (before @ p # after)))) # others)))
                 \<and> inlineData p = Some (InlineData (Some d) m)
                 \<and> (\<forall>q\<in>set before. \<not> (\<exists>d' m'. inlineData q = Some (InlineData (Some d') m') \<and> d' \<noteq> []))))
       \<or> (\<exists>message. result = Inl (ErrorObj message) \<and> message \<noteq> []
            \<and> (\<not> truthy (API_KEY env) \<and> message = ''API key not found in environment variables.''
               \<or> truthy (API_KEY env) \<and> (\<exists>m. reply = Inl (ErrorObj m) \<and> message = ''Failed to enhance image: '' @ m)
               \<or> truthy (API_KEY env) \<and> reply = Inl NonError
                    \<and> message = ''An unknown error occurred during image enhancement.''
               \<or> truthy (API_KEY env) \<and> (\<exists>response. reply = Inr response
                    \<and> (\<forall>others ps. response = Response (Some (Candidate (Some (Content (Some ps))) # others)) \<longrightarrow>
                          (\<forall>q\<in>set ps. \<not> (\<exists>d' m'. inlineData q = Some (InlineData (Some d') m') \<and> d' \<noteq> [])))
                    \<and> message = ''Failed to enhance image: No enhanced image found in the API response.'')))"
proof (cases "truthy (API_KEY env)")
  case False
  then show ?thesis by (simp add: result_def enhanceImage_def)
next
  case key: True
  show ?thesis
  proof (cases reply)
    case (Inl e)
    with key show ?thesis
      unfolding result_def enhanceImage_def Let_def
      by (cases e) (simp_all add: reply_def [symmetric] request_def [symmetric])
  next
    case (Inr response)
    show ?thesis
    proof (cases "first_image (response_parts response)")
      case None
      have none: "\<forall>others ps. response = Response (Some (Candidate (Some (Content (Some ps))) # others)) \<longrightarrow>
                   (\<forall>q\<in>set ps. \<not> (\<exists>d' m'. inlineData q = Some (InlineData (Some d') m') \<and> d' \<noteq> []))"
      proof (intro allI impI)
        fix others ps
        assume "response = Response (Some (Candidate (Some (Content (Some ps))) # others))"
        then have "response_parts response = ps" by (simp add: response_parts_first_candidate)
        with first_image_None [OF None] have "\<forall>q\<in>set ps. image_payload q = None" by simp
        then show "\<forall>q\<in>set ps. \<not> (\<exists>d' m'. inlineData q = Some (InlineData (Some d') m') \<and> d' \<noteq> [])"
          by (simp only: image_payload_None_iff)
      qed
      have res: "result = Inl (ErrorObj ''Failed to enhance image: No enhanced image found in the API response.'')"
        using key Inr None unfolding result_def enhanceImage_def Let_def
        by (simp add: reply_def [symmetric] request_def [symmetric])
      show ?thesis
        apply (rule disjI2)
        apply (rule exI [of _ "''Failed to enhance image: No enhanced image found in the API response.''"])
        using key res Inr none apply simp
        done
    next
      case (Some d)
      from first_image_Some [OF Some] obtain before p after where
        parts: "response_parts response = before @ p # after"
        and before: "\<forall>q\<in>set before. image_payload q = None" and p: "image_payload p = Some d"
        by blast
      from parts have "response_parts response \<noteq> []" by simp
      from response_parts_nonempty [OF this] parts obtain others where
        shape: "response = Response (Some (Candidate (Some (Content (Some (before @ p # after)))) # others))"
        by auto
      from p obtain m where m: "inlineData p = Some (InlineData (Some d) m)" and d: "d \<noteq> []"
        unfolding image_payload_Some_iff by blast
      from before
      have clean: "\<forall>q\<in>set before. \<not> (\<exists>d' m'. inlineData q = Some (InlineData (Some d') m') \<and> d' \<noteq> [])"
        by (simp only: image_payload_None_iff)
      have res: "result = Inr d"
        using key Inr Some unfolding result_def enhanceImage_def Let_def
        by (simp add: reply_def [symmetric] request_def [symmetric])
      have "\<exists>others before p after m.
                  reply = Inr (Response (Some (Candidate (Some (Content (Some (before @ p # after)))) # others)))
                 \<and> inlineData p = Some (InlineData (Some d) m)
                 \<and> (\<forall>q\<in>set before. \<not> (\<exists>d' m'. inlineData q = Some (InlineData (Some d') m') \<and> d' \<noteq> []))"
        apply (rule exI [of _ others], rule exI [of _ before], rule exI [of _ p], rule exI [of _ after],
               rule exI [of _ m])
        using Inr shape m clean apply blast
        done
      with res d key show ?thesis by blast
    qed
  qed
qed

text \<open>
  With the working environment the client returns \<open>BBBB\<close>, the inline data of the second
  part of the reply (the first part is text); without a credential it rejects.
\<close>

theorem enhanceImage_outcome_witness:
  "fst (enhanceImage env_ok (Some ''AAAA'') ''image/png'' st_empty) = Inr ''BBBB''
   \<and> fst (enhanceImage env_nokey (Some ''AAAA'') ''image/png'' st_empty)
      = Inl (ErrorObj ''API key not found in environment variables.'')"
proof -
  have "fst (enhanceImage env_ok (Some ''AAAA'') ''image/png'' st_empty) = Inr ''BBBB''"
    using enhanceImage_outcome [of env_ok "Some ''AAAA''" "''image/png''" st_empty]
    by (simp add: enhanceImage_def env_ok_def response_parts_def image_payload_def Let_def)
  moreover have "fst (enhanceImage env_nokey (Some ''AAAA'') ''image/png'' st_empty)
      = Inl (ErrorObj ''API key not found in environment variables.'')"
    by (simp add: enhanceImage_def env_nokey_def)
  ultimately show ?thesis by simp
qed

section \<open>The archive\<close>

lemma zip_images_fetch_fails:
  assumes "img \<in> set imgs" and "enhancedSrc img = Some src" and "src \<noteq> []"
    and "fetch env src = Inl e \<or> fetch env src = Inr (FetchResponse (Inl e))"
  shows "\<exists>e'. zip_images env imgs entries = Inl e'"
  using assms(1)
proof (induction imgs arbitrary: entries)
  case Nil
  then show ?case by simp
next
  case (Cons a imgs)
  show ?case
  proof (cases "a = img")
    case True
    with assms(2-4) show ?thesis by auto
  next
    case False
    with Cons.prems have "img \<in> set imgs" by simp
    from Cons.IH [OF this] show ?thesis
      by (auto simp: Let_def split: option.splits sum.splits)
  qed
qed

text \<open>
  Claim C7. When a fetch of an enhanced source (or its \<^verbatim>\<open>blob()\<close>) fails for one of the
  successful records, or the packaging of a non-empty selection fails, the handler logs
  the failure and does nothing else between setting and clearing the flag: no link is
  clicked, so nothing is downloaded, and \<open>isZipping\<close> ends false. On the success path the
  archive is downloaded as \<open>enhanced-images.zip\<close> and \<open>isZipping\<close> ends false as well.
\<close>

theorem archive_failure_aborts:
  fixes env rendered st
  defines "successfulImages \<equiv> filter (\<lambda>img. status img = SUCCESS \<and> truthy (enhancedSrc img)) rendered"
  shows "((\<exists>img\<in>set successfulImages. \<exists>src e. enhancedSrc img = Some src
              \<and> (fetch env src = Inl e \<or> fetch env src = Inr (FetchResponse (Inl e))))
          \<or> (\<exists>entries e. successfulImages \<noteq> [] \<and> zip_images env successfulImages [] = Inr entries
              \<and> generateAsync env entries = Inl e)
          \<longrightarrow> handleDownloadAll env rendered st
                = st\<lparr>isZipping := False,
                     events := events st @ [ZippingSet True, ConsoleError ''Failed to create zip file'',
                                            ZippingSet False]\<rparr>)
       \<and> (\<forall>entries archive. successfulImages \<noteq> [] \<and> zip_images env successfulImages [] = Inr entries
              \<and> generateAsync env entries = Inr archive
          \<longrightarrow> handleDownloadAll env rendered st
                = st\<lparr>isZipping := False,
                     events := events st @ [ZippingSet True,
                                            LinkClick (ObjectUrl archive) ''enhanced-images.zip'',
                                            ZippingSet False]\<rparr>)"
proof (intro conjI impI allI)
  assume "(\<exists>img\<in>set successfulImages. \<exists>src e. enhancedSrc img = Some src
              \<and> (fetch env src = Inl e \<or> fetch env src = Inr (FetchResponse (Inl e))))
          \<or> (\<exists>entries e. successfulImages \<noteq> [] \<and> zip_images env successfulImages [] = Inr entries
              \<and> generateAsync env entries = Inl e)"
  then show "handleDownloadAll env rendered st
                = st\<lparr>isZipping := False,
                     events := events st @ [ZippingSet True, ConsoleError ''Failed to create zip file'',
                                            ZippingSet False]\<rparr>"
  proof
    assume "\<exists>img\<in>set successfulImages. \<exists>src e. enhancedSrc img = Some src
              \<and> (fetch env src = Inl e \<or> fetch env src = Inr (FetchResponse (Inl e)))"
    then obtain img src e where img: "img \<in> set successfulImages" "enhancedSrc img = Some src"
      and e: "fetch env src = Inl e \<or> fetch env src = Inr (FetchResponse (Inl e))"
      by blast
    from img have "src \<noteq> []" by (auto simp: successfulImages_def)
    from zip_images_fetch_fails [OF img this e] obtain e' where
      "zip_images env successfulImages [] = Inl e'" by blast
    moreover from img have "successfulImages \<noteq> []" by auto
    ultimately show ?thesis
      unfolding handleDownloadAll_def Let_def successfulImages_def [symmetric]
      by (simp add: setIsZipping_def emit_def)
  next
    assume "\<exists>entries e. successfulImages \<noteq> [] \<and> zip_images env successfulImages [] = Inr entries
              \<and> generateAsync env entries = Inl e"
    then show ?thesis
      unfolding handleDownloadAll_def Let_def successfulImages_def [symmetric]
      by (auto simp: setIsZipping_def emit_def)
  qed
next
  fix entries archive
  assume "successfulImages \<noteq> [] \<and> zip_images env successfulImages [] = Inr entries
              \<and> generateAsync env entries = Inr archive"
  then show "handleDownloadAll env rendered st
                = st\<lparr>isZipping := False,
                     events := events st @ [ZippingSet True,
                                            LinkClick (ObjectUrl archive) ''enhanced-images.zip'',
                                            ZippingSet False]\<rparr>"
    unfolding handleDownloadAll_def Let_def successfulImages_def [symmetric]
    by (simp add: setIsZipping_def emit_def)
qed

text \<open>
  The fetch for the second of two successful records fails: the entry of the first one
  is dropped with the rest. Then the packaging fails.
\<close>

theorem archive_failure_aborts_witness:
  "handleDownloadAll env_fetch_fails [success_of file_a ''CCCC'', success_of file_b ''BBBB'']
      (store_of [success_of file_a ''CCCC'', success_of file_b ''BBBB''])
     = \<lparr>images = [success_of file_a ''CCCC'', success_of file_b ''BBBB''],
        isProcessing = False, isZipping = False,
        events = [ZippingSet True, ConsoleError ''Failed to create zip file'', ZippingSet False]\<rparr>
   \<and> handleDownloadAll env_zip_fails [success_of file_a ''CCCC'']
      (store_of [success_of file_a ''CCCC''])
     = \<lparr>images = [success_of file_a ''CCCC''],
        isProcessing = False, isZipping = False,
        events = [ZippingSet True, ConsoleError ''Failed to create zip file'', ZippingSet False]\<rparr>"
proof -
  let ?a = "success_of file_a ''CCCC''" and ?b = "success_of file_b ''BBBB''"
  have "handleDownloadAll env_fetch_fails [?a, ?b] (store_of [?a, ?b])
     = (store_of [?a, ?b])\<lparr>isZipping := False,
          events := events (store_of [?a, ?b]) @ [ZippingSet True, ConsoleError ''Failed to create zip file'',
                                            ZippingSet False]\<rparr>"
    using archive_failure_aborts [of "[?a, ?b]" env_fetch_fails "store_of [?a, ?b]"]
    by (simp add: success_of_def file_b_def env_fetch_fails_def)
  moreover have "handleDownloadAll env_zip_fails [?a] (store_of [?a])
     = (store_of [?a])\<lparr>isZipping := False,
          events := events (store_of [?a]) @ [ZippingSet True, ConsoleError ''Failed to create zip file'',
                                            ZippingSet False]\<rparr>"
    using archive_failure_aborts [of "[?a]" env_zip_fails "store_of [?a]"]
    by (simp add: success_of_def file_a_def env_zip_fails_def env_ok_def)
  ultimately show ?thesis by (simp add: store_of_def)
qed

text \<open>
  Claim C8. When no record of the store has status Success the handler returns at once:
  the state is what it was, so nothing is logged (the flag is not set, no link is
  clicked) and \<open>isZipping\<close> is after the call what it was before.
\<close>

theorem archive_noop_without_success:
  assumes "\<forall>img\<in>set rendered. status img \<noteq> SUCCESS"
  shows "handleDownloadAll env rendered st = st
       \<and> events (handleDownloadAll env rendered st) = events st
       \<and> isZipping (handleDownloadAll env rendered st) = isZipping st"
proof -
  have "filter (\<lambda>img. status img = SUCCESS \<and> truthy (enhancedSrc img)) rendered = []"
    using assms by (simp add: filter_empty_conv)
  then show ?thesis by (simp add: handleDownloadAll_def)
qed

theorem archive_noop_without_success_witness:
  "handleDownloadAll env_ok [idle_of file_a] (store_of [idle_of file_a]) = store_of [idle_of file_a]
   \<and> isZipping (handleDownloadAll env_ok [idle_of file_a] (store_of [idle_of file_a])) = False"
  using archive_noop_without_success [of "[idle_of file_a]" env_ok "store_of [idle_of file_a]"]
  by (simp add: idle_of_def store_of_def)

section \<open>Uploading\<close>

lemma collect_images_shape:
  "collect_images env fs i acc = Inr out \<Longrightarrow>
     \<exists>new. out = acc @ new \<and> map image_file new = filter is_image_file fs
        \<and> (\<forall>n\<in>set new. unenhanced n)"
proof (induction fs arbitrary: i acc)
  case Nil
  then show ?case by simp
next
  case (Cons f fs)
  show ?case
  proof (cases "is_image_file f")
    case False
    with Cons.prems have "collect_images env fs (Suc i) acc = Inr out"
      by (simp add: is_image_file_def)
    from Cons.IH [OF this] False show ?thesis by auto
  next
    case True
    with Cons.prems obtain dataUrl where "fileToDataURL env f = Inr dataUrl"
      by (cases "fileToDataURL env f") (auto simp: is_image_file_def)
    define r where "r = \<lparr>image_id = name f @ ''-'' @ string_of_nat (date_now env i),
                   image_file = f, originalSrc = dataUrl, enhancedSrc = None,
                   status = IDLE, error = None\<rparr>"
    have "collect_images env fs (Suc i) (acc @ [r]) = Inr out"
      using Cons.prems True \<open>fileToDataURL env f = Inr dataUrl\<close>
      by (simp add: is_image_file_def r_def)
    from Cons.IH [OF this] obtain new where
      new: "out = (acc @ [r]) @ new" "map image_file new = filter is_image_file fs"
           "\<forall>n\<in>set new. unenhanced n"
      by blast
    have "out = acc @ (r # new) \<and> map image_file (r # new) = filter is_image_file (f # fs)
        \<and> (\<forall>n\<in>set (r # new). unenhanced n)"
      using new True by (simp add: r_def unenhanced_def)
    then show ?thesis by blast
  qed
qed

lemma collect_images_readable:
  "\<forall>f\<in>set fs. is_image_file f \<longrightarrow> (\<exists>url. readAsDataURL env f = Inr url) \<Longrightarrow>
     \<exists>out. collect_images env fs i acc = Inr out"
  by (induction fs arbitrary: i acc) (auto simp: is_image_file_def fileToDataURL_def)

text \<open>
  An upload appends records that are waiting, and changes nothing else but the log.
\<close>

lemma handleFileChange_shape:
  "\<exists>new evs. handleFileChange env files st = st\<lparr>images := images st @ new, events := events st @ evs\<rparr>
      \<and> (\<forall>n\<in>set new. unenhanced n) \<and> (evs = [] \<or> evs = [ImagesAppended new])"
proof (cases files)
  case None
  then have "handleFileChange env files st = st\<lparr>images := images st @ [], events := events st @ []\<rparr>"
    by (simp add: handleFileChange_def)
  then show ?thesis by fastforce
next
  case (Some fs)
  show ?thesis
  proof (cases "collect_images env fs 0 []")
    case (Inl e)
    with Some have "handleFileChange env files st = st\<lparr>images := images st @ [], events := events st @ []\<rparr>"
      by (simp add: handleFileChange_def)
    then show ?thesis by fastforce
  next
    case (Inr out)
    from collect_images_shape [OF Inr] have "\<forall>n\<in>set out. unenhanced n" by auto
    moreover have "handleFileChange env files st
        = st\<lparr>images := images st @ out, events := events st @ [ImagesAppended out]\<rparr>"
      using Some Inr by (simp add: handleFileChange_def setImages_append_def emit_def)
    ultimately show ?thesis by blast
  qed
qed

text \<open>
  Claim C5, amended. When every image file of the list can be read, the upload appends
  exactly one waiting record for each file whose media type begins with \<open>image/\<close>, in the
  order of the list, and none for the other files.
\<close>

theorem upload_appends_images:
  assumes "\<forall>f\<in>set fs. is_image_file f \<longrightarrow> (\<exists>url. readAsDataURL env f = Inr url)"
  shows "\<exists>new. handleFileChange env (Some fs) st
                 = st\<lparr>images := images st @ new, events := events st @ [ImagesAppended new]\<rparr>
             \<and> map image_file new = filter is_image_file fs
             \<and> (\<forall>n\<in>set new. status n = IDLE \<and> enhancedSrc n = None \<and> error n = None)"
proof -
  from collect_images_readable [OF assms] obtain out where
    out: "collect_images env fs 0 [] = Inr out" by blast
  from collect_images_shape [OF out] have
    "map image_file out = filter is_image_file fs" "\<forall>n\<in>set out. unenhanced n"
    by auto
  moreover have "handleFileChange env (Some fs) st
      = st\<lparr>images := images st @ out, events := events st @ [ImagesAppended out]\<rparr>"
    using out by (simp add: handleFileChange_def setImages_append_def emit_def)
  ultimately show ?thesis unfolding unenhanced_def by blast
qed

text \<open>Two images and a text file in between, all readable: two records, in order.\<close>

theorem upload_appends_images_witness:
  "handleFileChange env_ok (Some [file_a, \<lparr>name = ''notes.txt'', type = ''text/plain''\<rparr>, file_b]) st_empty
     = \<lparr>images = [idle_of file_a, idle_of file_b], isProcessing = False, isZipping = False,
        events = [ImagesAppended [idle_of file_a, idle_of file_b]]\<rparr>"
  using upload_appends_images [of "[file_a, \<lparr>name = ''notes.txt'', type = ''text/plain''\<rparr>, file_b]" env_ok st_empty]
  by (simp add: handleFileChange_def fileToDataURL_def startsWith_def env_ok_def file_a_def file_b_def
        idle_of_def st_empty_def setImages_append_def emit_def digit_def string_of_nat.simps)

text \<open>
  The claim as written fails when a read fails: \<open>a.png\<close> is readable and \<open>b.jpg\<close> is not,
  and the upload of both appends no record at all.
\<close>

theorem upload_unreadable_counterexample:
  "is_image_file file_a \<and> is_image_file file_b
   \<and> handleFileChange env_unreadable (Some [file_a, file_b]) st_empty = st_empty"
  by (simp add: handleFileChange_def fileToDataURL_def startsWith_def is_image_file_def
        env_unreadable_def env_ok_def file_a_def file_b_def)

section \<open>One enhancement, step by step\<close>

lemma enhanceImage_shape:
  "\<exists>new evs. snd (enhanceImage env b m st) = st\<lparr>images := images st @ new, events := events st @ evs\<rparr>
      \<and> (\<forall>n\<in>set new. unenhanced n)
      \<and> filter (\<lambda>e. is_status e \<or> is_request e) evs
          = (if truthy (API_KEY env)
             then [GenerateContent [fileToGenerativePart b m, Part (Some prompt) None]] else [])"
proof (cases "truthy (API_KEY env)")
  case False
  then have "snd (enhanceImage env b m st) = st\<lparr>images := images st @ [], events := events st @ []\<rparr>"
    by (simp add: enhanceImage_def)
  with False show ?thesis by fastforce
next
  case True
  define req where "req = [fileToGenerativePart b m, Part (Some prompt) None]"
  define st0 where "st0 = emit (GenerateContent req) st"
  define st1 where "st1 = handleFileChange env (uploads env (remote_calls st)) st0"
  from handleFileChange_shape [of env "uploads env (remote_calls st)" st0] obtain new evs where
    st1: "st1 = st0\<lparr>images := images st0 @ new, events := events st0 @ evs\<rparr>"
    and new: "\<forall>n\<in>set new. unenhanced n" and evs: "evs = [] \<or> evs = [ImagesAppended new]"
    unfolding st1_def by blast
  have "snd (enhanceImage env b m st) = st1 \<or> snd (enhanceImage env b m st) = emit (ConsoleError ''Error enhancing image:'') st1"
    using True unfolding enhanceImage_def Let_def st1_def st0_def req_def
    by (simp split: sum.splits option.splits)
  then have "\<exists>tl. snd (enhanceImage env b m st) = st1\<lparr>events := events st1 @ tl\<rparr>
            \<and> (tl = [] \<or> tl = [ConsoleError ''Error enhancing image:''])"
  proof
    assume "snd (enhanceImage env b m st) = st1"
    then have "snd (enhanceImage env b m st) = st1\<lparr>events := events st1 @ []\<rparr>" by simp
    then show ?thesis by blast
  next
    assume "snd (enhanceImage env b m st) = emit (ConsoleError ''Error enhancing image:'') st1"
    then have "snd (enhanceImage env b m st)
        = st1\<lparr>events := events st1 @ [ConsoleError ''Error enhancing image:'']\<rparr>"
      by (simp add: emit_def)
    then show ?thesis by blast
  qed
  then obtain tl where tl: "snd (enhanceImage env b m st) = st1\<lparr>events := events st1 @ tl\<rparr>"
    and tl': "tl = [] \<or> tl = [ConsoleError ''Error enhancing image:'']"
    by blast
  have "snd (enhanceImage env b m st)
      = st\<lparr>images := images st @ new, events := events st @ (GenerateContent req # evs @ tl)\<rparr>"
    by (simp add: tl st1 st0_def emit_def)
  moreover have "filter (\<lambda>e. is_status e \<or> is_request e) (GenerateContent req # evs @ tl) = [GenerateContent req]"
    using evs tl' by auto
  ultimately show ?thesis using new True unfolding req_def by fastforce
qed

lemma enhanceSingleImage_absent:
  "find (\<lambda>img. image_id img = i) rendered = None \<Longrightarrow> enhanceSingleImage env rendered i st = st"
  by (simp add: enhanceSingleImage_def)

lemma enhanceSingleImage_shape:
  assumes "find (\<lambda>img. image_id img = i) rendered = Some r"
  shows "\<exists>new evs T t.
           enhanceSingleImage env rendered i st
             = st\<lparr>images := map (\<lambda>img. if image_id img = i then T img else img) (images st @ new),
                  events := events st @ evs\<rparr>
         \<and> (\<forall>n\<in>set new. unenhanced n)
         \<and> ((\<exists>src. T = succeed src \<and> t = SUCCESS) \<or> (\<exists>message. T = fail_with message \<and> t = ERROR))
         \<and> filter (\<lambda>e. is_status e \<or> is_request e) evs
             = StatusSet i ENHANCING # (if truthy (API_KEY env) then [request_for r] else []) @ [StatusSet i t]"
proof -
  define st1 where "st1 = setImages_status i ENHANCING (\<lambda>img. img) st"
  obtain res st2 where
    call: "enhanceImage env (fileToBase64 (originalSrc r)) (type (image_file r)) st1 = (res, st2)"
    by (cases "enhanceImage env (fileToBase64 (originalSrc r)) (type (image_file r)) st1") auto
  from enhanceImage_shape [of env "fileToBase64 (originalSrc r)" "type (image_file r)" st1] call
  obtain new evs where
    st2: "st2 = st1\<lparr>images := images st1 @ new, events := events st1 @ evs\<rparr>"
    and new: "\<forall>n\<in>set new. unenhanced n"
    and evs: "filter (\<lambda>e. is_status e \<or> is_request e) evs = (if truthy (API_KEY env) then [request_for r] else [])"
    unfolding request_for_def by auto
  have st2': "st2 = st\<lparr>images := map (\<lambda>img. if image_id img = i then img\<lparr>status := ENHANCING\<rparr> else img) (images st) @ new,
                      events := events st @ StatusSet i ENHANCING # evs\<rparr>"
    by (simp add: st2 st1_def setImages_status_def emit_def)
  have unfolded: "enhanceSingleImage env rendered i st =
      (case res of
         Inr enhancedBase64 \<Rightarrow>
           setImages_status i SUCCESS
             (\<lambda>img. img\<lparr>enhancedSrc :=
                Some (''data:'' @ type (image_file r) @ '';base64,'' @ enhancedBase64)\<rparr>) st2
       | Inl err \<Rightarrow>
           setImages_status i ERROR
             (\<lambda>img. img\<lparr>error := Some (case err of ErrorObj message \<Rightarrow> message
                                         | NonError \<Rightarrow> ''An unknown error occurred.'')\<rparr>)
             (emit (ConsoleError (''Enhancement failed for '' @ name (image_file r))) st2))"
    using assms call by (cases res) (simp_all add: enhanceSingleImage_def Let_def st1_def)
  show ?thesis
  proof (cases res)
    case (Inr enhancedBase64)
    define src where "src = ''data:'' @ type (image_file r) @ '';base64,'' @ enhancedBase64"
    have "enhanceSingleImage env rendered i st
        = st\<lparr>images := map (\<lambda>img. if image_id img = i then succeed src img else img) (images st @ new),
             events := events st @ (StatusSet i ENHANCING # evs @ [StatusSet i SUCCESS])\<rparr>"
      unfolding unfolded Inr st2'
      by (simp add: setImages_status_def emit_def succeed_def src_def)
    moreover have "filter (\<lambda>e. is_status e \<or> is_request e) (StatusSet i ENHANCING # evs @ [StatusSet i SUCCESS])
        = StatusSet i ENHANCING # (if truthy (API_KEY env) then [request_for r] else []) @ [StatusSet i SUCCESS]"
      using evs by simp
    ultimately show ?thesis using new by blast
  next
    case (Inl err)
    define message where "message = (case err of ErrorObj message \<Rightarrow> message | NonError \<Rightarrow> ''An unknown error occurred.'')"
    define c where "c = ConsoleError (''Enhancement failed for '' @ name (image_file r))"
    have "enhanceSingleImage env rendered i st
        = st\<lparr>images := map (\<lambda>img. if image_id img = i then fail_with message img else img) (images st @ new),
             events := events st @ (StatusSet i ENHANCING # evs @ [c, StatusSet i ERROR])\<rparr>"
      unfolding unfolded Inl st2'
      by (simp add: setImages_status_def emit_def fail_with_def message_def c_def)
    moreover have "filter (\<lambda>e. is_status e \<or> is_request e) (StatusSet i ENHANCING # evs @ [c, StatusSet i ERROR])
        = StatusSet i ENHANCING # (if truthy (API_KEY env) then [request_for r] else []) @ [StatusSet i ERROR]"
      using evs by (simp add: c_def)
    ultimately show ?thesis using new by blast
  qed
qed

text \<open>
  Claim C2, amended. Without a credential, enhancing a record of the rendered store
  first writes Enhancing to it, then logs the failure and writes Error with the message
  of the configuration error; the log holds no remote call. So an Idle record ends in
  Error, but through Enhancing.
\<close>

theorem missing_credential:
  assumes "\<not> truthy (API_KEY env)" and "find (\<lambda>img. image_id img = i) rendered = Some r"
  shows "enhanceSingleImage env rendered i st
           = st\<lparr>images := map (\<lambda>img. if image_id img = i
                                      then img\<lparr>status := ERROR,
                                               error := Some ''API key not found in environment variables.''\<rparr>
                                      else img) (images st),
                events := events st @ [StatusSet i ENHANCING,
                                       ConsoleError (''Enhancement failed for '' @ name (image_file r)),
                                       StatusSet i ERROR]\<rparr>"
  using assms
  by (simp add: enhanceSingleImage_def enhanceImage_def Let_def setImages_status_def emit_def)

theorem missing_credential_witness:
  "enhanceSingleImage env_nokey [idle_of file_a] ''a.png-7'' (store_of [idle_of file_a])
     = \<lparr>images = [(idle_of file_a)\<lparr>status := ERROR,
                                    error := Some ''API key not found in environment variables.''\<rparr>],
        isProcessing = False, isZipping = False,
        events = [StatusSet ''a.png-7'' ENHANCING, ConsoleError ''Enhancement failed for a.png'',
                  StatusSet ''a.png-7'' ERROR]\<rparr>"
  using missing_credential [of env_nokey "''a.png-7''" "[idle_of file_a]" "idle_of file_a" "store_of [idle_of file_a]"]
  by (simp add: env_nokey_def env_ok_def idle_of_def file_a_def store_of_def)

text \<open>
  The claim as written fails: the first write of the handler puts the record into
  Enhancing, and the log of the whole call shows that write before the one of Error.
\<close>

theorem missing_credential_counterexample:
  "status (idle_of file_a) = IDLE
   \<and> map status (images (setImages_status ''a.png-7'' ENHANCING (\<lambda>img. img) (store_of [idle_of file_a])))
       = [ENHANCING]
   \<and> filter is_status (events (enhanceSingleImage env_nokey [idle_of file_a] ''a.png-7'' (store_of [idle_of file_a])))
       = [StatusSet ''a.png-7'' ENHANCING, StatusSet ''a.png-7'' ERROR]"
  by (simp add: enhanceSingleImage_def enhanceImage_def Let_def setImages_status_def emit_def
        env_nokey_def env_ok_def idle_of_def file_a_def store_of_def)

section \<open>What one enhancement does to the store\<close>

lemma succeed_keeps [simp]:
  "image_id (succeed src img) = image_id img" "image_file (succeed src img) = image_file img"
  "originalSrc (succeed src img) = originalSrc img"
  by (simp_all add: succeed_def)

lemma fail_with_keeps [simp]:
  "image_id (fail_with message img) = image_id img" "image_file (fail_with message img) = image_file img"
  "originalSrc (fail_with message img) = originalSrc img"
  by (simp_all add: fail_with_def)

lemma enhanceSingleImage_images:
  "images (enhanceSingleImage env rendered i st) = images st
   \<or> (\<exists>new T. images (enhanceSingleImage env rendered i st)
                 = map (\<lambda>img. if image_id img = i then T img else img) (images st @ new)
          \<and> (\<forall>n\<in>set new. unenhanced n)
          \<and> ((\<exists>src. T = succeed src) \<or> (\<exists>message. T = fail_with message)))"
proof (cases "find (\<lambda>img. image_id img = i) rendered")
  case None
  then show ?thesis by (simp add: enhanceSingleImage_absent)
next
  case (Some r)
  from enhanceSingleImage_shape [OF Some, of env st] obtain new evs T t where
    "enhanceSingleImage env rendered i st
       = st\<lparr>images := map (\<lambda>img. if image_id img = i then T img else img) (images st @ new),
            events := events st @ evs\<rparr>"
    "\<forall>n\<in>set new. unenhanced n"
    "(\<exists>src. T = succeed src \<and> t = SUCCESS) \<or> (\<exists>message. T = fail_with message \<and> t = ERROR)"
    by blast
  then have "images (enhanceSingleImage env rendered i st)
                 = map (\<lambda>img. if image_id img = i then T img else img) (images st @ new)
          \<and> (\<forall>n\<in>set new. unenhanced n)
          \<and> ((\<exists>src. T = succeed src) \<or> (\<exists>message. T = fail_with message))"
    by auto
  then show ?thesis by blast
qed

lemma enhanceSingleImage_grows:
  "length (images st) \<le> length (images (enhanceSingleImage env rendered i st))"
  using enhanceSingleImage_images [of env rendered i st] by auto

lemma enhanceSingleImage_keeps:
  assumes "j < length (images st)"
  shows "image_id (images (enhanceSingleImage env rendered i st) ! j) = image_id (images st ! j)
       \<and> image_file (images (enhanceSingleImage env rendered i st) ! j) = image_file (images st ! j)
       \<and> originalSrc (images (enhanceSingleImage env rendered i st) ! j) = originalSrc (images st ! j)"
  using enhanceSingleImage_images [of env rendered i st] assms
  by (auto simp: nth_append)

lemma enhanceSingleImage_frame:
  assumes "j < length (images st)" and "image_id (images st ! j) \<noteq> i"
  shows "images (enhanceSingleImage env rendered i st) ! j = images st ! j"
  using enhanceSingleImage_images [of env rendered i st] assms
  by (auto simp: nth_append)

lemma enhanceSingleImage_uploaded:
  assumes "length (images st) \<le> j" and "j < length (images (enhanceSingleImage env rendered i st))"
    and "image_id (images (enhanceSingleImage env rendered i st) ! j) \<noteq> i"
  shows "unenhanced (images (enhanceSingleImage env rendered i st) ! j)"
proof -
  from enhanceSingleImage_images [of env rendered i st] assms(1,2)
  obtain new T where
    eq: "images (enhanceSingleImage env rendered i st)
           = map (\<lambda>img. if image_id img = i then T img else img) (images st @ new)"
    and new: "\<forall>n\<in>set new. unenhanced n"
    and T: "(\<exists>src. T = succeed src) \<or> (\<exists>message. T = fail_with message)"
    by auto
  from assms(1,2) eq have j: "j - length (images st) < length new" by auto
  have nth: "images (enhanceSingleImage env rendered i st) ! j
      = (\<lambda>img. if image_id img = i then T img else img) (new ! (j - length (images st)))"
    using assms(1,2) j unfolding eq by (simp add: nth_append)
  have "image_id (new ! (j - length (images st))) \<noteq> i"
    using assms(3) T unfolding nth by (auto split: if_splits)
  with nth new j show ?thesis by simp
qed

lemma enhanceSingleImage_target:
  assumes "find (\<lambda>img. image_id img = i) rendered \<noteq> None"
    and "j < length (images st)" and "image_id (images st ! j) = i"
  shows "(\<exists>src. images (enhanceSingleImage env rendered i st) ! j = succeed src (images st ! j))
       \<or> (\<exists>message. images (enhanceSingleImage env rendered i st) ! j = fail_with message (images st ! j))"
proof -
  from assms(1) obtain r where r: "find (\<lambda>img. image_id img = i) rendered = Some r" by auto
  from enhanceSingleImage_shape [OF r, of env st] obtain new evs T t where
    eq: "enhanceSingleImage env rendered i st
       = st\<lparr>images := map (\<lambda>img. if image_id img = i then T img else img) (images st @ new),
            events := events st @ evs\<rparr>"
    and T: "(\<exists>src. T = succeed src \<and> t = SUCCESS) \<or> (\<exists>message. T = fail_with message \<and> t = ERROR)"
    by blast
  have "images (enhanceSingleImage env rendered i st) ! j = T (images st ! j)"
    using assms(2,3) unfolding eq by (simp add: nth_append)
  with T show ?thesis by auto
qed

section \<open>What the batch does to the store\<close>

lemma enhance_each_grows:
  "length (images st) \<le> length (images (enhance_each env rendered xs st))"
proof (induction xs arbitrary: st)
  case Nil
  show ?case by simp
next
  case (Cons x xs)
  have "length (images st) \<le> length (images (enhanceSingleImage env rendered (image_id x) st))"
    by (rule enhanceSingleImage_grows)
  also have "\<dots> \<le> length (images (enhance_each env rendered (x # xs) st))"
    using Cons.IH by simp
  finally show ?case .
qed

lemma enhance_each_keeps:
  assumes "j < length (images st)"
  shows "image_id (images (enhance_each env rendered xs st) ! j) = image_id (images st ! j)
       \<and> image_file (images (enhance_each env rendered xs st) ! j) = image_file (images st ! j)
       \<and> originalSrc (images (enhance_each env rendered xs st) ! j) = originalSrc (images st ! j)"
  using assms
proof (induction xs arbitrary: st)
  case Nil
  show ?case by simp
next
  case (Cons x xs)
  let ?s = "enhanceSingleImage env rendered (image_id x) st"
  have "j < length (images ?s)"
    using Cons.prems enhanceSingleImage_grows [of st env rendered "image_id x"] by simp
  from Cons.IH [OF this] enhanceSingleImage_keeps [OF Cons.prems, of env rendered "image_id x"]
  show ?case by simp
qed

lemma enhance_each_frame:
  assumes "j < length (images st)" and "image_id (images st ! j) \<notin> image_id ` set xs"
  shows "images (enhance_each env rendered xs st) ! j = images st ! j"
  using assms
proof (induction xs arbitrary: st)
  case Nil
  show ?case by simp
next
  case (Cons x xs)
  let ?s = "enhanceSingleImage env rendered (image_id x) st"
  have j: "j < length (images ?s)"
    using Cons.prems(1) enhanceSingleImage_grows [of st env rendered "image_id x"] by simp
  have same: "images ?s ! j = images st ! j"
    using Cons.prems by (intro enhanceSingleImage_frame) auto
  then have "image_id (images ?s ! j) \<notin> image_id ` set xs"
    using Cons.prems(2) by simp
  from Cons.IH [OF j this] same show ?case by simp
qed

lemma enhance_each_uploaded:
  assumes "length (images st) \<le> j" and "j < length (images (enhance_each env rendered xs st))"
    and "image_id (images (enhance_each env rendered xs st) ! j) \<notin> image_id ` set xs"
  shows "unenhanced (images (enhance_each env rendered xs st) ! j)"
  using assms
proof (induction xs arbitrary: st)
  case Nil
  then show ?case by simp
next
  case (Cons x xs)
  let ?s = "enhanceSingleImage env rendered (image_id x) st"
  let ?s' = "enhance_each env rendered xs ?s"
  have j': "j < length (images ?s')" and id': "image_id (images ?s' ! j) \<notin> image_id ` set (x # xs)"
    using Cons.prems(2,3) by simp_all
  show ?case
  proof (cases "j < length (images ?s)")
    case False
    then have "length (images ?s) \<le> j" by simp
    from Cons.IH [OF this j'] id' show ?thesis by simp
  next
    case True
    from enhance_each_keeps [OF True, of env rendered xs] id'
    have notx: "image_id (images ?s ! j) \<noteq> image_id x" and notxs: "image_id (images ?s ! j) \<notin> image_id ` set xs"
      by auto
    have "unenhanced (images ?s ! j)"
      using Cons.prems(1) True notx by (rule enhanceSingleImage_uploaded)
    moreover have "images ?s' ! j = images ?s ! j"
      using True notxs by (rule enhance_each_frame)
    ultimately show ?thesis by simp
  qed
qed

lemma enhance_each_target:
  assumes "\<forall>x\<in>set xs. find (\<lambda>img. image_id img = image_id x) rendered \<noteq> None"
    and "distinct (map image_id xs)"
    and "j < length (images st)" and "image_id (images st ! j) \<in> image_id ` set xs"
  shows "(\<exists>src. images (enhance_each env rendered xs st) ! j = succeed src (images st ! j))
       \<or> (\<exists>message. images (enhance_each env rendered xs st) ! j = fail_with message (images st ! j))"
  using assms
proof (induction xs arbitrary: st)
  case Nil
  then show ?case by simp
next
  case (Cons x xs)
  let ?s = "enhanceSingleImage env rendered (image_id x) st"
  have j: "j < length (images ?s)"
    using Cons.prems(3) enhanceSingleImage_grows [of st env rendered "image_id x"] by simp
  have fresh: "image_id x \<notin> image_id ` set xs" and dist: "distinct (map image_id xs)"
    using Cons.prems(2) by auto
  have found: "\<forall>y\<in>set xs. find (\<lambda>img. image_id img = image_id y) rendered \<noteq> None"
    using Cons.prems(1) by simp
  show ?case
  proof (cases "image_id (images st ! j) = image_id x")
    case True
    have "image_id (images ?s ! j) \<notin> image_id ` set xs"
      using enhanceSingleImage_keeps [OF Cons.prems(3), of env rendered "image_id x"] True fresh by simp
    with j have "images (enhance_each env rendered xs ?s) ! j = images ?s ! j"
      by (rule enhance_each_frame)
    moreover have "(\<exists>src. images ?s ! j = succeed src (images st ! j))
       \<or> (\<exists>message. images ?s ! j = fail_with message (images st ! j))"
      using Cons.prems(1,3) True by (intro enhanceSingleImage_target) auto
    ultimately show ?thesis by simp
  next
    case False
    then have same: "images ?s ! j = images st ! j"
      using Cons.prems(3) by (intro enhanceSingleImage_frame) auto
    then have "image_id (images ?s ! j) \<in> image_id ` set xs"
      using Cons.prems(4) False by auto
    from Cons.IH [OF found dist j this] same show ?thesis by simp
  qed
qed

lemma setIsProcessing_fields [simp]:
  "images (setIsProcessing b st) = images st"
  "events (setIsProcessing b st) = events st @ [ProcessingSet b]"
  "isZipping (setIsProcessing b st) = isZipping st"
  by (simp_all add: setIsProcessing_def emit_def)

lemma enhanceAllImages_images:
  "images (enhanceAllImages env rendered st)
     = images (enhance_each env rendered (filter (\<lambda>img. status img = IDLE) rendered)
                 (setIsProcessing True st))"
  by (simp add: enhanceAllImages_def Let_def)

text \<open>
  The store after a batch that starts from the rendered store, when the ids of the final
  store are distinct (records are never removed and keep their ids, so the ids were
  distinct all along): the records that were waiting are settled, each by one final
  write; the other records of the rendered store are untouched; the records uploaded
  during the run are still as they were created.
\<close>

lemma batch_store:
  fixes env rendered st
  defines "final \<equiv> images (enhanceAllImages env rendered st)"
  assumes "images st = rendered" and "distinct (map image_id final)"
  shows "length rendered \<le> length final"
    and "\<forall>j<length rendered. status (rendered ! j) \<noteq> IDLE \<longrightarrow> final ! j = rendered ! j"
    and "\<forall>j<length rendered. status (rendered ! j) = IDLE \<longrightarrow>
           (\<exists>src. final ! j = succeed src (rendered ! j))
           \<or> (\<exists>message. final ! j = fail_with message (rendered ! j))"
    and "\<forall>j. length rendered \<le> j \<and> j < length final \<longrightarrow> unenhanced (final ! j)"
    and "distinct (map image_id rendered)"
proof -
  define idle where "idle = filter (\<lambda>img. status img = IDLE) rendered"
  define s0 where "s0 = setIsProcessing True st"
  have final: "final = images (enhance_each env rendered idle s0)"
    by (simp add: final_def enhanceAllImages_images idle_def s0_def)
  have s0: "images s0 = rendered" by (simp add: s0_def assms(2))
  show grows: "length rendered \<le> length final"
    using enhance_each_grows [of s0 env rendered idle] by (simp add: final s0)
  have keeps: "image_id (final ! j) = image_id (rendered ! j)" if "j < length rendered" for j
    using enhance_each_keeps [of j s0 env rendered idle] that by (simp add: final s0)
  have unique: "j = k" if "j < length final" "k < length final" "image_id (final ! j) = image_id (final ! k)" for j k
    using assms(3) that by (auto simp: distinct_conv_nth)
  have unique_rendered: "j = k"
    if "j < length rendered" "k < length rendered" "image_id (rendered ! j) = image_id (rendered ! k)" for j k
    using unique [of j k] that grows keeps by simp
  show "distinct (map image_id rendered)"
    using unique_rendered by (auto simp: distinct_conv_nth)
  then have dist: "distinct (map image_id idle)"
    unfolding idle_def by (rule distinct_map_filter)
  have found: "\<forall>x\<in>set idle. find (\<lambda>img. image_id img = image_id x) rendered \<noteq> None"
    by (auto simp: idle_def find_None_iff)
  have idle_at: "\<exists>k<length rendered. rendered ! k = x \<and> status x = IDLE" if "x \<in> set idle" for x
    using that by (auto simp: idle_def in_set_conv_nth)
  show "\<forall>j<length rendered. status (rendered ! j) \<noteq> IDLE \<longrightarrow> final ! j = rendered ! j"
  proof (intro allI impI)
    fix j assume j: "j < length rendered" and busy: "status (rendered ! j) \<noteq> IDLE"
    have "image_id (rendered ! j) \<notin> image_id ` set idle"
    proof
      assume "image_id (rendered ! j) \<in> image_id ` set idle"
      then obtain x where "x \<in> set idle" "image_id (rendered ! j) = image_id x" by auto
      with idle_at obtain k where "k < length rendered" "rendered ! k = x" "status x = IDLE" by blast
      with unique_rendered [of j k] j \<open>image_id (rendered ! j) = image_id x\<close> busy show False by auto
    qed
    then show "final ! j = rendered ! j"
      using enhance_each_frame [of j s0 idle env rendered] j by (simp add: final s0)
  qed
  show "\<forall>j<length rendered. status (rendered ! j) = IDLE \<longrightarrow>
           (\<exists>src. final ! j = succeed src (rendered ! j))
           \<or> (\<exists>message. final ! j = fail_with message (rendered ! j))"
  proof (intro allI impI)
    fix j assume j: "j < length rendered" and waiting: "status (rendered ! j) = IDLE"
    then have "rendered ! j \<in> set idle" by (simp add: idle_def)
    then have "image_id (images s0 ! j) \<in> image_id ` set idle" by (simp add: s0)
    from enhance_each_target [OF found dist _ this, of env] j
    show "(\<exists>src. final ! j = succeed src (rendered ! j))
           \<or> (\<exists>message. final ! j = fail_with message (rendered ! j))"
      by (simp add: final s0)
  qed
  show "\<forall>j. length rendered \<le> j \<and> j < length final \<longrightarrow> unenhanced (final ! j)"
  proof (intro allI impI)
    fix j assume j: "length rendered \<le> j \<and> j < length final"
    have "image_id (final ! j) \<notin> image_id ` set idle"
    proof
      assume "image_id (final ! j) \<in> image_id ` set idle"
      then obtain x where "x \<in> set idle" "image_id (final ! j) = image_id x" by auto
      with idle_at obtain k where k: "k < length rendered" "rendered ! k = x" by blast
      with keeps [of k] \<open>image_id (final ! j) = image_id x\<close>
      have "image_id (final ! j) = image_id (final ! k)" by simp
      with unique [of j k] j k grows show False by simp
    qed
    then show "unenhanced (final ! j)"
      using enhance_each_uploaded [of s0 j env rendered idle] j by (simp add: final s0)
  qed
qed

section \<open>What the batch leaves in the log\<close>

lemma enhance_each_log:
  assumes "\<forall>x\<in>set xs. find (\<lambda>img. image_id img = image_id x) rendered = Some x"
  shows "\<exists>evs ts. events (enhance_each env rendered xs st) = events st @ evs
           \<and> length ts = length xs \<and> (\<forall>t\<in>set ts. t = SUCCESS \<or> t = ERROR)
           \<and> filter (\<lambda>e. is_status e \<or> is_request e) evs
               = concat (map2 (enhancement_log (truthy (API_KEY env))) xs ts)"
  using assms
proof (induction xs arbitrary: st)
  case Nil
  have "events (enhance_each env rendered [] st) = events st @ [] \<and> length [] = length ([] :: ImageFile list)
      \<and> (\<forall>t\<in>set []. t = SUCCESS \<or> t = ERROR)
      \<and> filter (\<lambda>e. is_status e \<or> is_request e) []
           = concat (map2 (enhancement_log (truthy (API_KEY env))) [] [])"
    by simp
  then show ?case by blast
next
  case (Cons x xs)
  let ?s = "enhanceSingleImage env rendered (image_id x) st"
  from Cons.prems have x: "find (\<lambda>img. image_id img = image_id x) rendered = Some x" by simp
  from enhanceSingleImage_shape [OF x, of env st] obtain evs1 t where
    1: "events ?s = events st @ evs1" and t: "t = SUCCESS \<or> t = ERROR"
    and log1: "filter (\<lambda>e. is_status e \<or> is_request e) evs1 = enhancement_log (truthy (API_KEY env)) x t"
    unfolding enhancement_log_def by fastforce
  from Cons.prems have "\<forall>y\<in>set xs. find (\<lambda>img. image_id img = image_id y) rendered = Some y" by simp
  from Cons.IH [OF this, of ?s] obtain evs2 ts where
    2: "events (enhance_each env rendered xs ?s) = events ?s @ evs2"
    and ts: "length ts = length xs" "\<forall>t\<in>set ts. t = SUCCESS \<or> t = ERROR"
    and log2: "filter (\<lambda>e. is_status e \<or> is_request e) evs2
               = concat (map2 (enhancement_log (truthy (API_KEY env))) xs ts)"
    by blast
  have "events (enhance_each env rendered (x # xs) st) = events st @ (evs1 @ evs2)
      \<and> length (t # ts) = length (x # xs) \<and> (\<forall>t\<in>set (t # ts). t = SUCCESS \<or> t = ERROR)
      \<and> filter (\<lambda>e. is_status e \<or> is_request e) (evs1 @ evs2)
           = concat (map2 (enhancement_log (truthy (API_KEY env))) (x # xs) (t # ts))"
    using 1 2 t ts log1 log2 by simp
  then show ?case by blast
qed

lemma find_by_distinct_id:
  "distinct (map image_id imgs) \<Longrightarrow> x \<in> set imgs \<Longrightarrow> find (\<lambda>img. image_id img = image_id x) imgs = Some x"
  by (induction imgs) auto

text \<open>
  Claim C3, amended. A batch starts from the rendered store, and the ids of the records
  are pairwise distinct (stated on the final store, which holds every record there ever
  was: the rendered ones and those uploaded during the run). Then, with \<open>idle\<close> the
  records that were waiting at the click, in store order:
  \<^item> the status writes and remote calls of the run are those of the enhancements of the
    records of \<open>idle\<close>, one record after the other in that order, each one ending with its
    write of Success or Error before the next one begins with its write of Enhancing, and
    the request sent for a record carries its own source;
  \<^item> in the final store every record that was waiting is settled (Success with its
    enhanced source, or Error with its message), and every other record of the rendered
    store is what it was;
  \<^item> the records behind them, uploaded while the run awaited the service, are still
    waiting as they were created: the run did not process them.
\<close>

theorem batch_processes_idle_snapshot:
  fixes env rendered st
  defines "idle \<equiv> filter (\<lambda>img. status img = IDLE) rendered"
  defines "final \<equiv> enhanceAllImages env rendered st"
  assumes "images st = rendered" and "distinct (map image_id (images final))"
  shows "\<exists>evs ts. events final = events st @ [ProcessingSet True] @ evs @ [ProcessingSet False]
           \<and> length ts = length idle \<and> (\<forall>t\<in>set ts. t = SUCCESS \<or> t = ERROR)
           \<and> filter (\<lambda>e. is_status e \<or> is_request e) evs
               = concat (map2 (enhancement_log (truthy (API_KEY env))) idle ts)
           \<and> length rendered \<le> length (images final)
           \<and> (\<forall>j<length rendered.
                 if status (rendered ! j) = IDLE
                 then (\<exists>src. images final ! j = succeed src (rendered ! j))
                      \<or> (\<exists>message. images final ! j = fail_with message (rendered ! j))
                 else images final ! j = rendered ! j)
           \<and> (\<forall>j. length rendered \<le> j \<and> j < length (images final) \<longrightarrow> unenhanced (images final ! j))"
proof -
  note store = batch_store [OF assms(3), of env, folded final_def, OF assms(4)]
  from store(5)
  have "\<forall>x\<in>set idle. find (\<lambda>img. image_id img = image_id x) rendered = Some x"
    by (auto simp: idle_def find_by_distinct_id)
  from enhance_each_log [OF this, of env "setIsProcessing True st"] obtain evs ts where
    "events (enhance_each env rendered idle (setIsProcessing True st)) = events (setIsProcessing True st) @ evs"
    and ts: "length ts = length idle" "\<forall>t\<in>set ts. t = SUCCESS \<or> t = ERROR"
      "filter (\<lambda>e. is_status e \<or> is_request e) evs
               = concat (map2 (enhancement_log (truthy (API_KEY env))) idle ts)"
    by blast
  then have "events final = events st @ [ProcessingSet True] @ evs @ [ProcessingSet False]"
    by (simp add: final_def enhanceAllImages_def Let_def idle_def)
  with ts store(1-4) show ?thesis by auto
qed
lemma env_upload_fields:
  "API_KEY env_upload = Some ''key''"
  "generateContent env_upload k request = Inr (Response (Some [Candidate (Some (Content (Some
        [Part (Some ''done'') None, Part None (Some (InlineData (Some ''BBBB'') (Some ''image/png'')))])))]))"
  "uploads env_upload k = (if k = 0 then Some [file_c] else None)"
  "readAsDataURL env_upload f = Inr (''data:'' @ type f @ '';base64,AAAA'')"
  "date_now env_upload i = 7"
  by (simp_all add: env_upload_def env_ok_def)

lemma file_c_fields: "name file_c = ''c.png''" "type file_c = ''image/png''"
  by (simp_all add: file_c_def)

lemma string_of_nat_7: "string_of_nat 7 = ''7''"
  by (simp add: string_of_nat.simps digit_def)

lemma upload_file_c:
  "handleFileChange env_upload (Some [file_c]) st
     = st\<lparr>images := images st @ [idle_of file_c], events := events st @ [ImagesAppended [idle_of file_c]]\<rparr>"
  by (simp add: handleFileChange_def fileToDataURL_def startsWith_def setImages_append_def emit_def
      string_of_nat_7 env_upload_fields idle_of_def file_c_fields)

text \<open>
  A store with \<open>a.png\<close> waiting, \<open>b.jpg\<close> enhanced and \<open>photo\<close> waiting; the user uploads
  \<open>c.png\<close> during the first remote call. The run enhances \<open>a.png\<close>, then \<open>photo\<close>, and
  leaves \<open>b.jpg\<close> and \<open>c.png\<close> alone.
\<close>

theorem batch_processes_idle_snapshot_witness:
  "images (enhanceAllImages env_upload [idle_of file_a, success_of file_b ''BBBB'', idle_of file_noext]
             (store_of [idle_of file_a, success_of file_b ''BBBB'', idle_of file_noext]))
     = [succeed ''data:image/png;base64,BBBB'' (idle_of file_a), success_of file_b ''BBBB'',
        succeed ''data:image/png;base64,BBBB'' (idle_of file_noext), idle_of file_c]
   \<and> filter (\<lambda>e. is_status e \<or> is_request e)
       (events (enhanceAllImages env_upload [idle_of file_a, success_of file_b ''BBBB'', idle_of file_noext]
                  (store_of [idle_of file_a, success_of file_b ''BBBB'', idle_of file_noext])))
     = [StatusSet ''a.png-7'' ENHANCING, request_for (idle_of file_a), StatusSet ''a.png-7'' SUCCESS,
        StatusSet ''photo-7'' ENHANCING, request_for (idle_of file_noext), StatusSet ''photo-7'' SUCCESS]"
proof -
  let ?R = "[idle_of file_a, success_of file_b ''BBBB'', idle_of file_noext]"
  let ?a = "succeed ''data:image/png;base64,BBBB'' (idle_of file_a)"
  let ?p = "succeed ''data:image/png;base64,BBBB'' (idle_of file_noext)"
  let ?log1 = "[ProcessingSet True, StatusSet ''a.png-7'' ENHANCING, request_for (idle_of file_a),
                ImagesAppended [idle_of file_c], StatusSet ''a.png-7'' SUCCESS]"
  let ?log2 = "[StatusSet ''photo-7'' ENHANCING, request_for (idle_of file_noext), StatusSet ''photo-7'' SUCCESS]"
  have first: "enhanceSingleImage env_upload ?R ''a.png-7'' (setIsProcessing True (store_of ?R))
      = \<lparr>images = [?a, success_of file_b ''BBBB'', idle_of file_noext, idle_of file_c],
         isProcessing = True, isZipping = False, events = ?log1\<rparr>"
    by (simp add: enhanceSingleImage_def enhanceImage_def Let_def remote_calls_def emit_def store_of_def
          env_upload_fields response_parts_def image_payload_def upload_file_c setImages_status_def
          fileToBase64_def request_for_def succeed_def setIsProcessing_def
          idle_of_def success_of_def file_a_def file_b_def file_c_fields file_noext_def)
  have second: "enhanceSingleImage env_upload ?R ''photo-7''
        \<lparr>images = [?a, success_of file_b ''BBBB'', idle_of file_noext, idle_of file_c],
         isProcessing = True, isZipping = False, events = ?log1\<rparr>
      = \<lparr>images = [?a, success_of file_b ''BBBB'', ?p, idle_of file_c],
         isProcessing = True, isZipping = False, events = ?log1 @ ?log2\<rparr>"
    by (simp add: enhanceSingleImage_def enhanceImage_def Let_def remote_calls_def emit_def
          env_upload_fields response_parts_def image_payload_def handleFileChange_def setImages_status_def
          fileToBase64_def request_for_def succeed_def
          idle_of_def success_of_def file_a_def file_b_def file_c_fields file_noext_def)
  have idle: "filter (\<lambda>img. status img = IDLE) ?R = [idle_of file_a, idle_of file_noext]"
    by (simp add: idle_of_def success_of_def)
  have ids: "image_id (idle_of file_a) = ''a.png-7''" "image_id (idle_of file_noext) = ''photo-7''"
    by (simp_all add: idle_of_def file_a_def file_noext_def)
  have run: "enhanceAllImages env_upload ?R (store_of ?R)
      = \<lparr>images = [?a, success_of file_b ''BBBB'', ?p, idle_of file_c],
         isProcessing = False, isZipping = False, events = ?log1 @ ?log2 @ [ProcessingSet False]\<rparr>"
    unfolding enhanceAllImages_def Let_def idle enhance_each.simps ids first second
    by (simp add: setIsProcessing_def emit_def)
  have distinct_ids: "distinct (map image_id (images (enhanceAllImages env_upload ?R (store_of ?R))))"
    unfolding run
    by (simp add: succeed_def idle_of_def success_of_def file_a_def file_b_def file_c_fields file_noext_def)
  have start: "images (store_of ?R) = ?R"
    by (simp add: store_of_def)
  from batch_processes_idle_snapshot [OF start distinct_ids]
  have "length ?R \<le> length (images (enhanceAllImages env_upload ?R (store_of ?R)))"
    by blast
  then show ?thesis
    unfolding run by (simp add: request_for_def)
qed

text \<open>
  The claim as written fails when two records share an id. Both records of the upload
  below are waiting at the click, but the run sends the source of the first one twice
  and never the source of the second one, and the first record is written Enhancing
  again after it has reached Success.
\<close>

theorem batch_duplicate_ids_counterexample:
  "images (twins_of env_ok) = [idle_of file_a, idle_of file_a_jpeg]
   \<and> map status (images (twins_of env_ok)) = [IDLE, IDLE]
   \<and> filter (\<lambda>e. is_status e \<or> is_request e)
        (events (enhanceAllImages env_ok (images (twins_of env_ok)) (twins_of env_ok)))
       = [StatusSet ''a.png-7'' ENHANCING, request_for (idle_of file_a), StatusSet ''a.png-7'' SUCCESS,
          StatusSet ''a.png-7'' ENHANCING, request_for (idle_of file_a), StatusSet ''a.png-7'' SUCCESS]
   \<and> request_for (idle_of file_a_jpeg) \<noteq> request_for (idle_of file_a)
   \<and> images (enhanceAllImages env_ok (images (twins_of env_ok)) (twins_of env_ok))
       = [succeed ''data:image/png;base64,BBBB'' (idle_of file_a),
          succeed ''data:image/png;base64,BBBB'' (idle_of file_a_jpeg)]"
proof -
  let ?R = "[idle_of file_a, idle_of file_a_jpeg]"
  let ?a = "succeed ''data:image/png;base64,BBBB'' (idle_of file_a)"
  let ?j = "succeed ''data:image/png;base64,BBBB'' (idle_of file_a_jpeg)"
  let ?log0 = "[ImagesAppended ?R, ProcessingSet True]"
  let ?log1 = "[StatusSet ''a.png-7'' ENHANCING, request_for (idle_of file_a), StatusSet ''a.png-7'' SUCCESS]"
  have up: "twins_of env_ok = \<lparr>images = ?R, isProcessing = False, isZipping = False,
                                events = [ImagesAppended ?R]\<rparr>"
    by (simp add: twins_of_def handleFileChange_def fileToDataURL_def startsWith_def setImages_append_def
          emit_def string_of_nat.simps digit_def env_ok_fields st_empty_def idle_of_def
          file_a_def file_a_jpeg_def)
  have ids: "image_id (idle_of file_a) = ''a.png-7''" "image_id (idle_of file_a_jpeg) = ''a.png-7''"
    by (simp_all add: idle_of_def file_a_def file_a_jpeg_def)
  have first: "enhanceSingleImage env_ok ?R ''a.png-7''
        \<lparr>images = ?R, isProcessing = True, isZipping = False, events = ?log0\<rparr>
      = \<lparr>images = [?a, ?j], isProcessing = True, isZipping = False, events = ?log0 @ ?log1\<rparr>"
    by (simp add: enhanceSingleImage_def enhanceImage_def Let_def remote_calls_def emit_def
          env_ok_fields response_parts_def image_payload_def handleFileChange_def setImages_status_def
          fileToBase64_def request_for_def succeed_def idle_of_def file_a_def file_a_jpeg_def)
  have second: "enhanceSingleImage env_ok ?R ''a.png-7''
        \<lparr>images = [?a, ?j], isProcessing = True, isZipping = False, events = ?log0 @ ?log1\<rparr>
      = \<lparr>images = [?a, ?j], isProcessing = True, isZipping = False, events = ?log0 @ ?log1 @ ?log1\<rparr>"
    by (simp add: enhanceSingleImage_def enhanceImage_def Let_def remote_calls_def emit_def
          env_ok_fields response_parts_def image_payload_def handleFileChange_def setImages_status_def
          fileToBase64_def request_for_def succeed_def idle_of_def file_a_def file_a_jpeg_def)
  have idle: "filter (\<lambda>img. status img = IDLE) ?R = ?R"
    by (simp add: idle_of_def)
  have start: "setIsProcessing True \<lparr>images = ?R, isProcessing = False, isZipping = False,
                                     events = [ImagesAppended ?R]\<rparr>
      = \<lparr>images = ?R, isProcessing = True, isZipping = False, events = ?log0\<rparr>"
    by (simp add: setIsProcessing_def emit_def)
  have run: "enhanceAllImages env_ok ?R \<lparr>images = ?R, isProcessing = False, isZipping = False,
                                          events = [ImagesAppended ?R]\<rparr>
      = \<lparr>images = [?a, ?j], isProcessing = False, isZipping = False,
         events = ?log0 @ ?log1 @ ?log1 @ [ProcessingSet False]\<rparr>"
    unfolding enhanceAllImages_def Let_def idle enhance_each.simps ids start first second
    by (simp add: setIsProcessing_def emit_def)
  have differ: "request_for (idle_of file_a_jpeg) \<noteq> request_for (idle_of file_a)"
    by (simp add: request_for_def fileToGenerativePart_def idle_of_def file_a_def file_a_jpeg_def)
  show ?thesis
    unfolding up app_state.simps run
    using differ by (simp add: request_for_def idle_of_def)
qed

section \<open>Failures stay with their record\<close>







section \<open>Status and fields\<close>

lemma handleDownloadAll_images: "images (handleDownloadAll env rendered st) = images st"
  by (simp add: handleDownloadAll_def Let_def setIsZipping_def emit_def split: sum.splits)

lemma unenhanced_fields: "unenhanced img \<Longrightarrow> fields_match img \<and> fields_present img"
  by (simp add: unenhanced_def fields_match_def fields_present_def)

lemma fields_match_present: "fields_match img \<Longrightarrow> fields_present img"
  by (auto simp: fields_match_def fields_present_def)

lemma settled_present: "fields_present (succeed src img)" "fields_present (fail_with message img)"
  by (simp_all add: fields_present_def succeed_def fail_with_def)

lemma settled_match:
  assumes "fields_match img" and "status img = IDLE"
  shows "fields_match (succeed src img)" "fields_match (fail_with message img)"
  using assms by (auto simp: fields_match_def succeed_def fail_with_def)

lemma handleFileChange_present:
  assumes "\<forall>img\<in>set (images st). fields_present img"
  shows "\<forall>img\<in>set (images (handleFileChange env files st)). fields_present img"
  using handleFileChange_shape [of env files st] assms unenhanced_fields by fastforce

lemma handleFileChange_match:
  assumes "\<forall>img\<in>set (images st). fields_match img"
  shows "\<forall>img\<in>set (images (handleFileChange env files st)). fields_match img"
  using handleFileChange_shape [of env files st] assms unenhanced_fields by fastforce

lemma enhanceSingleImage_present:
  assumes "\<forall>img\<in>set (images st). fields_present img"
  shows "\<forall>img\<in>set (images (enhanceSingleImage env rendered i st)). fields_present img"
proof
  fix img assume img: "img \<in> set (images (enhanceSingleImage env rendered i st))"
  from enhanceSingleImage_images [of env rendered i st] show "fields_present img"
  proof
    assume "images (enhanceSingleImage env rendered i st) = images st"
    with img assms show ?thesis by simp
  next
    assume "\<exists>new T. images (enhanceSingleImage env rendered i st)
                 = map (\<lambda>img. if image_id img = i then T img else img) (images st @ new)
          \<and> (\<forall>n\<in>set new. unenhanced n)
          \<and> ((\<exists>src. T = succeed src) \<or> (\<exists>message. T = fail_with message))"
    then obtain new T where
      eq: "images (enhanceSingleImage env rendered i st)
                 = map (\<lambda>img. if image_id img = i then T img else img) (images st @ new)"
      and new: "\<forall>n\<in>set new. unenhanced n"
      and T: "(\<exists>src. T = succeed src) \<or> (\<exists>message. T = fail_with message)" by blast
    from img have "img \<in> (\<lambda>x. if image_id x = i then T x else x) ` set (images st @ new)"
      unfolding eq set_map .
    then obtain x where "x \<in> set (images st @ new)"
      and img_x: "img = (if image_id x = i then T x else x)"
      by (rule imageE)
    then have x: "x \<in> set (images st) \<or> x \<in> set new" by simp
    from x assms new unenhanced_fields have "fields_present x" by blast
    with img_x T settled_present show ?thesis by auto
  qed
qed

lemma enhance_each_present:
  assumes "\<forall>img\<in>set (images st). fields_present img"
  shows "\<forall>img\<in>set (images (enhance_each env rendered xs st)). fields_present img"
  using assms
proof (induction xs arbitrary: st)
  case Nil
  then show ?case by simp
next
  case (Cons x xs)
  from enhanceSingleImage_present [OF Cons.prems, of env rendered "image_id x"]
  show ?case by (simp add: Cons.IH)
qed

lemma enhanceSingleImage_match:
  assumes "\<forall>img\<in>set (images st). fields_match img"
    and "\<forall>img\<in>set (images st). image_id img = i \<longrightarrow> status img = IDLE"
  shows "\<forall>img\<in>set (images (enhanceSingleImage env rendered i st)). fields_match img"
proof
  fix img assume img: "img \<in> set (images (enhanceSingleImage env rendered i st))"
  from enhanceSingleImage_images [of env rendered i st] show "fields_match img"
  proof
    assume "images (enhanceSingleImage env rendered i st) = images st"
    with img assms show ?thesis by simp
  next
    assume "\<exists>new T. images (enhanceSingleImage env rendered i st)
                 = map (\<lambda>img. if image_id img = i then T img else img) (images st @ new)
          \<and> (\<forall>n\<in>set new. unenhanced n)
          \<and> ((\<exists>src. T = succeed src) \<or> (\<exists>message. T = fail_with message))"
    then obtain new T where
      eq: "images (enhanceSingleImage env rendered i st)
                 = map (\<lambda>img. if image_id img = i then T img else img) (images st @ new)"
      and new: "\<forall>n\<in>set new. unenhanced n"
      and T: "(\<exists>src. T = succeed src) \<or> (\<exists>message. T = fail_with message)" by blast
    from img have "img \<in> (\<lambda>x. if image_id x = i then T x else x) ` set (images st @ new)"
      unfolding eq set_map .
    then obtain x where "x \<in> set (images st @ new)"
      and img_x: "img = (if image_id x = i then T x else x)"
      by (rule imageE)
    then have x: "x \<in> set (images st) \<or> x \<in> set new" by simp
    from x assms(1) new unenhanced_fields have m: "fields_match x" by blast
    from x assms(2) new have "image_id x = i \<longrightarrow> status x = IDLE"
      by (auto simp: unenhanced_def)
    with img_x T m settled_match show ?thesis by auto
  qed
qed

lemma enhanceAllImages_match:
  assumes "\<forall>img\<in>set (images st). fields_match img" and "images st = rendered"
    and "distinct (map image_id (images (enhanceAllImages env rendered st)))"
  shows "\<forall>img\<in>set (images (enhanceAllImages env rendered st)). fields_match img"
proof
  let ?final = "images (enhanceAllImages env rendered st)"
  note store = batch_store [OF assms(2,3)]
  fix img assume "img \<in> set ?final"
  then obtain j where j: "j < length ?final" and img: "img = ?final ! j"
    by (auto simp: in_set_conv_nth)
  show "fields_match img"
  proof (cases "j < length rendered")
    case False
    with j store(4) have "unenhanced (?final ! j)" by simp
    with img unenhanced_fields show ?thesis by simp
  next
    case True
    then have m: "fields_match (rendered ! j)" using assms(1,2) by auto
    show ?thesis
    proof (cases "status (rendered ! j) = IDLE")
      case False
      with True store(2) m img show ?thesis by simp
    next
      case waiting: True
      with True store(3) have "(\<exists>src. ?final ! j = succeed src (rendered ! j))
           \<or> (\<exists>message. ?final ! j = fail_with message (rendered ! j))" by simp
      with img settled_match [OF m waiting] show ?thesis by auto
    qed
  qed
qed
text \<open>
  Claim C1, amended. After every operation (upload, single enhancement, batch
  enhancement, archive build) a Success record has its enhanced source and an Error
  record has its error, provided that was so before. The converse halves, and so the
  two biconditionals, are kept by an upload and by an archive build; by a single
  enhancement when the records of the id enhanced are waiting (a first enhancement); and
  by a batch started on the rendered store when record ids are unique. They are not kept
  when a record is enhanced again after a Success or an Error: the earlier enhanced
  source or error stays in the record.
\<close>

theorem status_fields_invariant:
  "((\<forall>img\<in>set (images st). fields_present img) \<longrightarrow>
       (\<forall>img\<in>set (images (handleFileChange env files st)). fields_present img)
     \<and> (\<forall>img\<in>set (images (enhanceSingleImage env rendered i st)). fields_present img)
     \<and> (\<forall>img\<in>set (images (enhanceAllImages env rendered st)). fields_present img)
     \<and> (\<forall>img\<in>set (images (handleDownloadAll env rendered st)). fields_present img))
   \<and> ((\<forall>img\<in>set (images st). fields_match img) \<longrightarrow>
       (\<forall>img\<in>set (images (handleFileChange env files st)). fields_match img)
     \<and> (\<forall>img\<in>set (images (handleDownloadAll env rendered st)). fields_match img)
     \<and> ((\<forall>img\<in>set (images st). image_id img = i \<longrightarrow> status img = IDLE) \<longrightarrow>
          (\<forall>img\<in>set (images (enhanceSingleImage env rendered i st)). fields_match img))
     \<and> (images st = rendered \<and> distinct (map image_id (images (enhanceAllImages env rendered st))) \<longrightarrow>
          (\<forall>img\<in>set (images (enhanceAllImages env rendered st)). fields_match img)))"
proof (intro conjI impI)
  assume p: "\<forall>img\<in>set (images st). fields_present img"
  show "\<forall>img\<in>set (images (handleFileChange env files st)). fields_present img"
    using p by (rule handleFileChange_present)
  show "\<forall>img\<in>set (images (enhanceSingleImage env rendered i st)). fields_present img"
    using p by (rule enhanceSingleImage_present)
  show "\<forall>img\<in>set (images (enhanceAllImages env rendered st)). fields_present img"
    using p enhance_each_present [of "setIsProcessing True st" env rendered]
    by (simp add: enhanceAllImages_images)
  show "\<forall>img\<in>set (images (handleDownloadAll env rendered st)). fields_present img"
    using p by (simp add: handleDownloadAll_images)
next
  assume m: "\<forall>img\<in>set (images st). fields_match img"
  show "\<forall>img\<in>set (images (handleFileChange env files st)). fields_match img"
    using m by (rule handleFileChange_match)
  show "\<forall>img\<in>set (images (handleDownloadAll env rendered st)). fields_match img"
    using m by (simp add: handleDownloadAll_images)
  show "\<forall>img\<in>set (images (enhanceSingleImage env rendered i st)). fields_match img"
    if "\<forall>img\<in>set (images st). image_id img = i \<longrightarrow> status img = IDLE"
    using m that by (rule enhanceSingleImage_match)
  show "\<forall>img\<in>set (images (enhanceAllImages env rendered st)). fields_match img"
    if "images st = rendered \<and> distinct (map image_id (images (enhanceAllImages env rendered st)))"
    using m that by (intro enhanceAllImages_match) auto
qed

text \<open>The batch over a store that holds \<open>a.png\<close>, waiting: the record ends in Success with its source.\<close>

theorem status_fields_invariant_witness:
  "images (enhanceAllImages env_ok [idle_of file_a] (store_of [idle_of file_a]))
     = [succeed ''data:image/png;base64,BBBB'' (idle_of file_a)]
   \<and> fields_match (succeed ''data:image/png;base64,BBBB'' (idle_of file_a))"
proof -
  let ?R = "[idle_of file_a]"
  have id: "image_id (idle_of file_a) = ''a.png-7''"
    by (simp add: idle_of_def file_a_def)
  have run: "images (enhanceAllImages env_ok ?R (store_of ?R))
     = [succeed ''data:image/png;base64,BBBB'' (idle_of file_a)]"
    by (simp add: enhanceAllImages_def enhanceSingleImage_def enhanceImage_def Let_def remote_calls_def
          emit_def store_of_def env_ok_fields response_parts_def image_payload_def handleFileChange_def
          setIsProcessing_def setImages_status_def succeed_def idle_of_def file_a_def)
  have start: "\<forall>img\<in>set (images (store_of ?R)). fields_match img"
    by (simp add: store_of_def idle_of_def fields_match_def)
  have "images (store_of ?R) = ?R \<and> distinct (map image_id (images (enhanceAllImages env_ok ?R (store_of ?R))))"
    unfolding run by (simp add: store_of_def)
  with status_fields_invariant [of "store_of ?R" env_ok None ?R "''a.png-7''"] start
  have "\<forall>img\<in>set (images (enhanceAllImages env_ok ?R (store_of ?R))). fields_match img"
    by blast
  with run show ?thesis by simp
qed

text \<open>
  The claim as written fails for a record that is enhanced again: \<open>a.png\<close> is uploaded
  and enhanced, which keeps the invariant; the second enhancement fails, and the record
  ends in Error with the enhanced source of the first one still present.
\<close>

theorem status_fields_counterexample:
  "images enhanced_a = [succeed ''data:image/png;base64,BBBB'' (idle_of file_a)]
   \<and> fields_match (succeed ''data:image/png;base64,BBBB'' (idle_of file_a))
   \<and> images reenhanced_a
       = [fail_with ''Failed to enhance image: 503'' (succeed ''data:image/png;base64,BBBB'' (idle_of file_a))]
   \<and> status (fail_with ''Failed to enhance image: 503'' (succeed ''data:image/png;base64,BBBB'' (idle_of file_a)))
       = ERROR
   \<and> enhancedSrc (fail_with ''Failed to enhance image: 503'' (succeed ''data:image/png;base64,BBBB'' (idle_of file_a)))
       = Some ''data:image/png;base64,BBBB''
   \<and> \<not> fields_match (fail_with ''Failed to enhance image: 503''
                         (succeed ''data:image/png;base64,BBBB'' (idle_of file_a)))"
proof -
  have up: "uploaded_a = \<lparr>images = [idle_of file_a], isProcessing = False, isZipping = False,
                          events = [ImagesAppended [idle_of file_a]]\<rparr>"
    by (simp add: uploaded_a_def handleFileChange_def fileToDataURL_def startsWith_def setImages_append_def
          emit_def string_of_nat.simps digit_def env_flaky_fields st_empty_def idle_of_def file_a_def)
  have once: "enhanced_a = \<lparr>images = [succeed ''data:image/png;base64,BBBB'' (idle_of file_a)],
                            isProcessing = False, isZipping = False,
                            events = [ImagesAppended [idle_of file_a], StatusSet ''a.png-7'' ENHANCING,
                                      request_for (idle_of file_a), StatusSet ''a.png-7'' SUCCESS]\<rparr>"
    unfolding enhanced_a_def up
    by (simp add: enhanceSingleImage_def enhanceImage_def Let_def remote_calls_def emit_def
          env_flaky_fields env_ok_fields response_parts_def image_payload_def handleFileChange_def
          setImages_status_def fileToBase64_def request_for_def succeed_def idle_of_def file_a_def)
  have twice: "images reenhanced_a
       = [fail_with ''Failed to enhance image: 503'' (succeed ''data:image/png;base64,BBBB'' (idle_of file_a))]"
    unfolding reenhanced_a_def once
    by (simp add: enhanceSingleImage_def enhanceImage_def Let_def remote_calls_def emit_def
          env_flaky_fields handleFileChange_def setImages_status_def request_for_def
          succeed_def fail_with_def idle_of_def file_a_def)
  show ?thesis
    unfolding twice once
    by (simp add: fields_match_def succeed_def fail_with_def idle_of_def)
qed

end
